theory Spec2Isabelle
  imports Main "HOL-Library.Word"
begin

unbundle bit_operations_syntax

section \<open>Constants and plain data (FSTypes.h)\<close>

type_synonym u8 = "8 word"
type_synonym u16 = "16 word"
type_synonym u32 = "32 word"
type_synonym i64 = "64 word"
type_synonym BlockNo = "32 word"
type_synonym InodeId = "32 word"

text \<open>A block buffer: the \<open>uint8_t[BLOCK_SIZE]\<close> arrays of the source.\<close>

type_synonym block_data = "u8 list"

definition BLOCK_SIZE :: u32 where "BLOCK_SIZE = 1024"
definition NUM_DIRECT_BLOCKS :: u32 where "NUM_DIRECT_BLOCKS = 12"
definition PTRS_PER_BLOCK :: u32 where "PTRS_PER_BLOCK = 256"
definition MAX_FILENAME_LEN :: nat where "MAX_FILENAME_LEN = 56"
definition INVALID_BLOCK :: u32 where "INVALID_BLOCK = 0xFFFFFFFF"
definition INVALID_INODE :: u32 where "INVALID_INODE = 0xFFFFFFFF"
definition ROOT_INODE :: u32 where "ROOT_INODE = 0"
definition INODES_PER_BLOCK :: u32 where "INODES_PER_BLOCK = 8"
definition DIRENTRIES_PER_BLOCK :: nat where "DIRENTRIES_PER_BLOCK = 16"

datatype ErrorCode =
    OK
  | E_IO | E_INTERNAL | E_INVALID_PARAM
  | E_NOT_FOUND | E_ALREADY_EXISTS | E_NOT_DIR | E_IS_DIR | E_NOT_EMPTY
  | E_INVALID_PATH | E_NAME_TOO_LONG
  | E_NO_SPACE | E_NO_INODE | E_FILE_TOO_LARGE
  | E_PERMISSION
  | E_SNAPSHOT_NOT_FOUND | E_SNAPSHOT_EXISTS | E_MAX_SNAPSHOTS

text \<open>\<open>Result<T>\<close> is the sum \<open>ErrorCode + T\<close>: \<open>Inl\<close> a failure, \<open>Inr\<close> a success.\<close>

datatype FileType = FREE | REGULAR | DIRECTORY | SYMLINK

record Superblock =
  magic :: u32
  version :: u32
  block_size :: u32
  total_blocks :: u32
  total_inodes :: u32
  inode_bitmap_start :: BlockNo
  inode_bitmap_blocks :: u32
  block_bitmap_start :: BlockNo
  block_bitmap_blocks :: u32
  inode_table_start :: BlockNo
  free_blocks :: u32
  free_inodes :: u32
  used_blocks :: u32
  used_inodes :: u32
  data_block_start :: BlockNo
  data_block_count :: u32
  snapshot_count :: u32
  snapshot_list_block :: BlockNo
  root_inode :: InodeId

record Inode =
  itype :: FileType
  permissions :: u8
  flags :: u16
  isize :: u32
  link_count :: u16
  ref_count :: u16
  create_time :: i64
  modify_time :: i64
  access_time :: i64
  direct_blocks :: "BlockNo list"
  single_indirect :: BlockNo
  double_indirect :: BlockNo
  block_count :: u32
  checksum :: u32

definition isDirectory :: "Inode \<Rightarrow> bool" where
  "isDirectory i \<longleftrightarrow> itype i = DIRECTORY"

definition isRegularFile :: "Inode \<Rightarrow> bool" where
  "isRegularFile i \<longleftrightarrow> itype i = REGULAR"

definition maxBlocks :: u32 where
  "maxBlocks = NUM_DIRECT_BLOCKS + PTRS_PER_BLOCK + PTRS_PER_BLOCK * PTRS_PER_BLOCK"

text \<open>\<open>Inode::maxFileSize\<close> is computed in 64 bits.\<close>

definition maxFileSize :: "64 word" where
  "maxFileSize = ucast maxBlocks * ucast BLOCK_SIZE"

subsection \<open>Bitmap\<close>

text \<open>
  The class wraps a byte array and a bit count. An index at or past \<open>total_bits\<close> reads as
  clear and is never written. The byte read \<open>data[index / 8]\<close> is inside the array whenever
  the array holds \<open>total_bits\<close> bits, which the theorems below assume.
\<close>

definition bitmap_get :: "u8 list \<Rightarrow> u32 \<Rightarrow> u32 \<Rightarrow> bool" where
  "bitmap_get data total_bits index =
     (if index \<ge> total_bits then False
      else bit (data ! (unat index div 8)) (unat index mod 8))"

definition bitmap_set :: "u8 list \<Rightarrow> u32 \<Rightarrow> u32 \<Rightarrow> u8 list" where
  "bitmap_set data total_bits index =
     (if index \<ge> total_bits then data
      else data[unat index div 8 := (data ! (unat index div 8)) OR push_bit (unat index mod 8) 1])"

definition bitmap_clear :: "u8 list \<Rightarrow> u32 \<Rightarrow> u32 \<Rightarrow> u8 list" where
  "bitmap_clear data total_bits index =
     (if index \<ge> total_bits then data
      else data[unat index div 8 := (data ! (unat index div 8)) AND NOT (push_bit (unat index mod 8) 1)])"

text \<open>
  \<open>findFirstFree\<close> scans upwards and returns the index cast to \<open>int32_t\<close>, or \<open>-1\<close>.
  The cast of an index below \<open>2 ^ 32\<close> is written out: from \<open>2 ^ 31\<close> on it is negative.
\<close>

definition to_int32 :: "nat \<Rightarrow> int" where
  "to_int32 i = (if i < 2 ^ 31 then int i else int i - 2 ^ 32)"

function first_free_from :: "u8 list \<Rightarrow> u32 \<Rightarrow> nat \<Rightarrow> int" where
  "first_free_from data total_bits i =
     (if i < unat total_bits then
        (if \<not> bitmap_get data total_bits (of_nat i) then to_int32 i
         else first_free_from data total_bits (Suc i))
      else -1)"
  by pat_completeness auto
termination
  by (relation "measure (\<lambda>(data, total_bits, i). unat total_bits - i)") auto

declare first_free_from.simps [simp del]

definition findFirstFree :: "u8 list \<Rightarrow> u32 \<Rightarrow> int" where
  "findFirstFree data total_bits = first_free_from data total_bits 0"

section \<open>DiskImage\<close>

text \<open>
  The image file is a map from block numbers to block contents. A failure of the underlying
  stream on a block is a predicate of the state (\<open>read_fault\<close>, \<open>write_fault\<close>), so that the
  \<open>E_IO\<close> branches of the source are branches of the model. The I/O statistics are left out.
\<close>

record DiskImage =
  is_open :: bool
  dk_total_blocks :: u32
  file_blocks :: "BlockNo \<Rightarrow> block_data"
  read_fault :: "BlockNo \<Rightarrow> bool"
  write_fault :: "BlockNo \<Rightarrow> bool"
  file_good :: bool

definition validateBlockNo :: "DiskImage \<Rightarrow> BlockNo \<Rightarrow> bool" where
  "validateBlockNo d block_no \<longleftrightarrow> block_no < dk_total_blocks d"

definition disk_readBlock :: "DiskImage \<Rightarrow> BlockNo \<Rightarrow> ErrorCode + block_data" where
  "disk_readBlock d block_no =
     (if \<not> is_open d then Inl E_INVALID_PARAM
      else if \<not> validateBlockNo d block_no then Inl E_INVALID_PARAM
      else if read_fault d block_no then Inl E_IO
      else Inr (file_blocks d block_no))"

definition disk_writeBlock :: "DiskImage \<Rightarrow> BlockNo \<Rightarrow> block_data \<Rightarrow> DiskImage \<times> ErrorCode" where
  "disk_writeBlock d block_no buffer =
     (if \<not> is_open d then (d, E_INVALID_PARAM)
      else if \<not> validateBlockNo d block_no then (d, E_INVALID_PARAM)
      else if write_fault d block_no then (d, E_IO)
      else (d\<lparr>file_blocks := (file_blocks d)(block_no := buffer)\<rparr>, OK))"

definition disk_sync :: "DiskImage \<Rightarrow> ErrorCode" where
  "disk_sync d = (if \<not> is_open d then E_IO else if file_good d then OK else E_IO)"

section \<open>Allocator\<close>

record AllocStats =
  inode_allocs :: u32
  inode_frees :: u32
  block_allocs :: u32
  block_frees :: u32
  bitmap_reads :: u32
  bitmap_writes :: u32

record Allocator =
  superblock :: Superblock
  loaded :: bool
  inode_bitmap :: "u8 list"
  block_bitmap :: "u8 list"
  inode_bitmap_dirty :: bool
  block_bitmap_dirty :: bool
  superblock_dirty :: bool
  block_refcount :: "u8 list"
  refcount_enabled :: bool
  stats :: AllocStats

definition dataBlockToAbsolute :: "Allocator \<Rightarrow> u32 \<Rightarrow> BlockNo" where
  "dataBlockToAbsolute a data_block_index = data_block_start (superblock a) + data_block_index"

definition absoluteToDataBlock :: "Allocator \<Rightarrow> BlockNo \<Rightarrow> u32" where
  "absoluteToDataBlock a abs_block_no = abs_block_no - data_block_start (superblock a)"

definition isValidDataBlock :: "Allocator \<Rightarrow> BlockNo \<Rightarrow> bool" where
  "isValidDataBlock a abs_block_no \<longleftrightarrow>
     abs_block_no \<ge> data_block_start (superblock a) \<and>
     abs_block_no < data_block_start (superblock a) + data_block_count (superblock a)"

definition updateBlockStats :: "Allocator \<Rightarrow> int \<Rightarrow> Allocator" where
  "updateBlockStats a delta =
     (let sb = superblock a;
          sb' = (if delta > 0
                 then sb\<lparr>used_blocks := used_blocks sb + word_of_int delta,
                         free_blocks := free_blocks sb - word_of_int delta\<rparr>
                 else sb\<lparr>used_blocks := used_blocks sb - word_of_int (- delta),
                         free_blocks := free_blocks sb + word_of_int (- delta)\<rparr>)
      in a\<lparr>superblock := sb', superblock_dirty := True\<rparr>)"

definition isBlockAllocated :: "Allocator \<Rightarrow> BlockNo \<Rightarrow> bool" where
  "isBlockAllocated a block_no =
     (if \<not> loaded a \<or> \<not> isValidDataBlock a block_no then False
      else bitmap_get (block_bitmap a) (data_block_count (superblock a))
             (absoluteToDataBlock a block_no))"

definition getBlockRef :: "Allocator \<Rightarrow> BlockNo \<Rightarrow> u32" where
  "getBlockRef a block_no =
     (if \<not> loaded a \<or> \<not> refcount_enabled a then 0
      else if \<not> isValidDataBlock a block_no then 0
      else let data_idx = absoluteToDataBlock a block_no in
        if unat data_idx \<ge> length (block_refcount a) then 0
        else ucast (block_refcount a ! unat data_idx))"

definition bump_block_frees :: "Allocator \<Rightarrow> Allocator" where
  "bump_block_frees a = a\<lparr>stats := (stats a)\<lparr>block_frees := block_frees (stats a) + 1\<rparr>\<rparr>"

definition freeBlock :: "Allocator \<Rightarrow> BlockNo \<Rightarrow> Allocator \<times> ErrorCode" where
  "freeBlock a block_no =
     (if \<not> loaded a then (a, E_INVALID_PARAM)
      else if \<not> isValidDataBlock a block_no then (a, E_INVALID_PARAM)
      else
        let data_idx = absoluteToDataBlock a block_no;
            total = data_block_count (superblock a)
        in if \<not> bitmap_get (block_bitmap a) total data_idx then (a, E_INVALID_PARAM)
           else if refcount_enabled a \<and> unat data_idx < length (block_refcount a)
                   \<and> block_refcount a ! unat data_idx > 1
           then (a\<lparr>block_refcount :=
                     (block_refcount a)[unat data_idx := block_refcount a ! unat data_idx - 1]\<rparr>, OK)
           else
             let a1 = (if refcount_enabled a \<and> unat data_idx < length (block_refcount a)
                       then a\<lparr>block_refcount := (block_refcount a)[unat data_idx := 0]\<rparr>
                       else a);
                 a2 = a1\<lparr>block_bitmap := bitmap_clear (block_bitmap a1) total data_idx,
                         block_bitmap_dirty := True\<rparr>
             in (bump_block_frees (updateBlockStats a2 (-1)), OK))"

definition decBlockRef :: "Allocator \<Rightarrow> BlockNo \<Rightarrow> Allocator \<times> (ErrorCode + u32)" where
  "decBlockRef a block_no =
     (if \<not> loaded a \<or> \<not> refcount_enabled a then (a, Inl E_INVALID_PARAM)
      else if \<not> isValidDataBlock a block_no then (a, Inl E_INVALID_PARAM)
      else
        let data_idx = absoluteToDataBlock a block_no in
        if unat data_idx \<ge> length (block_refcount a) then (a, Inl E_INVALID_PARAM)
        else if block_refcount a ! unat data_idx = 0 then (a, Inl E_INTERNAL)
        else
          let r = block_refcount a ! unat data_idx - 1;
              a1 = a\<lparr>block_refcount := (block_refcount a)[unat data_idx := r]\<rparr>;
              a2 = (if r = 0
                    then bump_block_frees (updateBlockStats
                           (a1\<lparr>block_bitmap := bitmap_clear (block_bitmap a1)
                                   (data_block_count (superblock a1)) data_idx,
                                block_bitmap_dirty := True\<rparr>) (-1))
                    else a1)
          in (a2, Inr (ucast r)))"

definition incBlockRef :: "Allocator \<Rightarrow> BlockNo \<Rightarrow> Allocator \<times> (ErrorCode + u32)" where
  "incBlockRef a block_no =
     (if \<not> loaded a \<or> \<not> refcount_enabled a then (a, Inl E_INVALID_PARAM)
      else if \<not> isValidDataBlock a block_no then (a, Inl E_INVALID_PARAM)
      else
        let data_idx = absoluteToDataBlock a block_no in
        if unat data_idx \<ge> length (block_refcount a) then (a, Inl E_INVALID_PARAM)
        else if block_refcount a ! unat data_idx \<ge> 255 then (a, Inl E_INTERNAL)
        else
          let r = block_refcount a ! unat data_idx + 1
          in (a\<lparr>block_refcount := (block_refcount a)[unat data_idx := r]\<rparr>, Inr (ucast r)))"

text \<open>
  The bitmap vector holds a bit for every data block: \<open>load\<close> sizes it from the superblock.
\<close>

definition bitmap_covers :: "Allocator \<Rightarrow> bool" where
  "bitmap_covers a \<longleftrightarrow> unat (data_block_count (superblock a)) \<le> 8 * length (block_bitmap a)"

section \<open>The mounted file system\<close>

text \<open>
  \<open>Allocator\<close>, \<open>Directory\<close> and \<open>SnapshotManager\<close> hold pointers to one another and to one
  disk; the model keeps them in one record. The block endpoint is the raw \<open>DiskImage\<close>
  (the constructors taking a \<open>DiskImage*\<close>, \<open>use_cached_disk_ = false\<close>); the cache is
  modelled on its own further down. The inode table is kept as decoded \<open>Inode\<close> records:
  \<open>readInode\<close> and \<open>writeInode\<close> fail exactly when the source's access to the table block
  fails.
\<close>

record SnapshotInfo =
  sn_name :: string
  sn_create_time :: i64
  sn_root_inode :: InodeId
  sn_block_count :: u32
  sn_valid :: bool

record SnapshotStats =
  total_snapshots :: u32
  cow_operations :: u32
  shared_blocks :: u32
  total_snapshot_size :: "64 word"

record SnapshotManager =
  snapshots :: "SnapshotInfo list"
  sm_snapshot_list_block :: BlockNo
  sm_loaded :: bool
  sm_dirty :: bool
  sm_stats :: SnapshotStats

record FileSystem =
  alloc :: Allocator
  disk :: DiskImage
  inode_table :: "InodeId \<Rightarrow> Inode"
  snapmgr :: SnapshotManager
  snap_wired :: bool \<comment> \<open>\<open>Directory::snap_ != nullptr\<close>\<close>

definition readBlockInternal :: "FileSystem \<Rightarrow> BlockNo \<Rightarrow> ErrorCode + block_data" where
  "readBlockInternal s block_no = disk_readBlock (disk s) block_no"

definition writeBlockInternal :: "FileSystem \<Rightarrow> BlockNo \<Rightarrow> block_data \<Rightarrow> FileSystem \<times> ErrorCode" where
  "writeBlockInternal s block_no buffer =
     (case disk_writeBlock (disk s) block_no buffer of (d, err) \<Rightarrow> (s\<lparr>disk := d\<rparr>, err))"

definition getInodeBlock :: "Allocator \<Rightarrow> InodeId \<Rightarrow> BlockNo" where
  "getInodeBlock a inode_id = inode_table_start (superblock a) + inode_id div INODES_PER_BLOCK"

definition readInode :: "FileSystem \<Rightarrow> InodeId \<Rightarrow> ErrorCode + Inode" where
  "readInode s inode_id =
     (if \<not> loaded (alloc s) then Inl E_INVALID_PARAM
      else if inode_id \<ge> total_inodes (superblock (alloc s)) then Inl E_INVALID_PARAM
      else case readBlockInternal s (getInodeBlock (alloc s) inode_id) of
             Inl err \<Rightarrow> Inl err
           | Inr block_data \<Rightarrow> Inr (inode_table s inode_id))"

definition writeInode :: "FileSystem \<Rightarrow> InodeId \<Rightarrow> Inode \<Rightarrow> FileSystem \<times> ErrorCode" where
  "writeInode s inode_id inode =
     (if \<not> loaded (alloc s) then (s, E_INVALID_PARAM)
      else if inode_id \<ge> total_inodes (superblock (alloc s)) then (s, E_INVALID_PARAM)
      else case readBlockInternal s (getInodeBlock (alloc s) inode_id) of
             Inl err \<Rightarrow> (s, err)
           | Inr block_data \<Rightarrow>
               if \<not> validateBlockNo (disk s) (getInodeBlock (alloc s) inode_id)
                  \<or> \<not> is_open (disk s) then (s, E_INVALID_PARAM)
               else if write_fault (disk s) (getInodeBlock (alloc s) inode_id) then (s, E_IO)
               else (s\<lparr>inode_table := (inode_table s)(inode_id := inode)\<rparr>, OK))"

definition zero_block :: block_data where
  "zero_block = replicate 1024 0"

definition bump_block_allocs :: "Allocator \<Rightarrow> Allocator" where
  "bump_block_allocs a = a\<lparr>stats := (stats a)\<lparr>block_allocs := block_allocs (stats a) + 1\<rparr>\<rparr>"

definition allocBlock :: "FileSystem \<Rightarrow> FileSystem \<times> (ErrorCode + BlockNo)" where
  "allocBlock s =
     (let a = alloc s; total = data_block_count (superblock a) in
      if \<not> loaded a then (s, Inl E_INVALID_PARAM)
      else if free_blocks (superblock a) = 0 then (s, Inl E_NO_SPACE)
      else
        let free_idx = findFirstFree (block_bitmap a) total in
        if free_idx < 0 then (s, Inl E_NO_SPACE)
        else
          let idx = (word_of_int free_idx :: u32);
              abs_block = dataBlockToAbsolute a idx;
              a1 = a\<lparr>block_bitmap := bitmap_set (block_bitmap a) total idx,
                      block_bitmap_dirty := True\<rparr>;
              a2 = (if refcount_enabled a1 \<and> nat free_idx < length (block_refcount a1)
                    then a1\<lparr>block_refcount := (block_refcount a1)[nat free_idx := 1]\<rparr>
                    else a1)
          in case disk_writeBlock (disk s) abs_block zero_block of
               (d, err) \<Rightarrow>
                 if err \<noteq> OK
                 then (s\<lparr>alloc := a2\<lparr>block_bitmap := bitmap_clear (block_bitmap a2) total idx\<rparr>,
                          disk := d\<rparr>, Inl err)
                 else (s\<lparr>alloc := bump_block_allocs (updateBlockStats a2 1), disk := d\<rparr>,
                       Inr abs_block))"

section \<open>SnapshotManager: copy on write\<close>

definition needsCOW :: "FileSystem \<Rightarrow> BlockNo \<Rightarrow> bool" where
  "needsCOW s block_no =
     (if snapshots (snapmgr s) = [] then False
      else getBlockRef (alloc s) block_no > 1)"

definition bump_cow_operations :: "SnapshotManager \<Rightarrow> SnapshotManager" where
  "bump_cow_operations m =
     m\<lparr>sm_stats := (sm_stats m)\<lparr>cow_operations := cow_operations (sm_stats m) + 1\<rparr>\<rparr>"

definition performCOW :: "FileSystem \<Rightarrow> BlockNo \<Rightarrow> FileSystem \<times> (ErrorCode + BlockNo)" where
  "performCOW s block_no =
     (if \<not> needsCOW s block_no then (s, Inr block_no)
      else case allocBlock s of
        (s1, Inl err) \<Rightarrow> (s1, Inl err)
      | (s1, Inr new_block) \<Rightarrow>
          (case readBlockInternal s1 block_no of
             Inl err \<Rightarrow> (s1\<lparr>alloc := fst (freeBlock (alloc s1) new_block)\<rparr>, Inl err)
           | Inr buffer \<Rightarrow>
               (case writeBlockInternal s1 new_block buffer of
                  (s2, err) \<Rightarrow>
                    if err \<noteq> OK
                    then (s2\<lparr>alloc := fst (freeBlock (alloc s2) new_block)\<rparr>, Inl err)
                    else (s2\<lparr>alloc := fst (decBlockRef (alloc s2) block_no),
                              snapmgr := bump_cow_operations (snapmgr s2)\<rparr>,
                          Inr new_block))))"

section \<open>Directory: file block pointers\<close>

text \<open>
  An indirect block is read into a byte buffer and reinterpreted as 256 little-endian
  \<open>uint32_t\<close> pointers.
\<close>

fun le32 :: "u8 list \<Rightarrow> u32" where
  "le32 (b0 # b1 # b2 # b3 # rest) =
     ucast b0 OR push_bit 8 (ucast b1) OR push_bit 16 (ucast b2) OR push_bit 24 (ucast b3)"
| "le32 bs = 0"

definition enc32 :: "u32 \<Rightarrow> u8 list" where
  "enc32 v = [ucast v, ucast (drop_bit 8 v), ucast (drop_bit 16 v), ucast (drop_bit 24 v)]"

definition get_ptr :: "block_data \<Rightarrow> nat \<Rightarrow> BlockNo" where
  "get_ptr blk i = le32 (drop (4 * i) blk)"

definition set_ptr :: "block_data \<Rightarrow> nat \<Rightarrow> BlockNo \<Rightarrow> block_data" where
  "set_ptr blk i v = take (4 * i) blk @ enc32 v @ drop (4 * i + 4) blk"

definition getIndirectBlock :: "FileSystem \<Rightarrow> BlockNo \<Rightarrow> u32 \<Rightarrow> ErrorCode + BlockNo" where
  "getIndirectBlock s indirect_block index =
     (if indirect_block = INVALID_BLOCK \<or> index \<ge> PTRS_PER_BLOCK then Inl E_INVALID_PARAM
      else case readBlockInternal s indirect_block of
             Inl err \<Rightarrow> Inl err
           | Inr block_data \<Rightarrow>
               if get_ptr block_data (unat index) = INVALID_BLOCK then Inl E_NOT_FOUND
               else Inr (get_ptr block_data (unat index)))"

definition setIndirectBlock :: "FileSystem \<Rightarrow> BlockNo \<Rightarrow> u32 \<Rightarrow> BlockNo \<Rightarrow> FileSystem \<times> ErrorCode" where
  "setIndirectBlock s indirect_block index v =
     (if indirect_block = INVALID_BLOCK \<or> index \<ge> PTRS_PER_BLOCK then (s, E_INVALID_PARAM)
      else case readBlockInternal s indirect_block of
             Inl err \<Rightarrow> (s, err)
           | Inr block_data \<Rightarrow>
               writeBlockInternal s indirect_block (set_ptr block_data (unat index) v))"

definition invalid_ptr_block :: block_data where
  "invalid_ptr_block = replicate 1024 0xFF"

definition allocIndirectBlock :: "FileSystem \<Rightarrow> FileSystem \<times> (ErrorCode + BlockNo)" where
  "allocIndirectBlock s =
     (case allocBlock s of
        (s1, Inl err) \<Rightarrow> (s1, Inl err)
      | (s1, Inr b) \<Rightarrow>
          (case writeBlockInternal s1 b invalid_ptr_block of
             (s2, err) \<Rightarrow>
               if err \<noteq> OK then (s2\<lparr>alloc := fst (freeBlock (alloc s2) b)\<rparr>, Inl err)
               else (s2, Inr b)))"

text \<open>
  The pointer in slot \<open>i\<close> of the indirect block \<open>b\<close> as a lookup sees it: the error of a
  failed read, \<open>E_NOT_FOUND\<close> for \<open>INVALID_BLOCK\<close>, the pointer otherwise. The statement
  of the lookup's contract is written with it.
\<close>

definition ptr_at :: "FileSystem \<Rightarrow> BlockNo \<Rightarrow> nat \<Rightarrow> ErrorCode + BlockNo" where
  "ptr_at s b i =
     (case readBlockInternal s b of
        Inl err \<Rightarrow> Inl err
      | Inr blk \<Rightarrow> if get_ptr blk i = INVALID_BLOCK then Inl E_NOT_FOUND else Inr (get_ptr blk i))"

definition getFileBlock :: "FileSystem \<Rightarrow> Inode \<Rightarrow> u32 \<Rightarrow> ErrorCode + BlockNo" where
  "getFileBlock s inode block_index =
     (if block_index < NUM_DIRECT_BLOCKS then
        (let block = direct_blocks inode ! unat block_index in
         if block = INVALID_BLOCK then Inl E_NOT_FOUND else Inr block)
      else
        let block_index = block_index - NUM_DIRECT_BLOCKS in
        if block_index < PTRS_PER_BLOCK then
          (if single_indirect inode = INVALID_BLOCK then Inl E_NOT_FOUND
           else getIndirectBlock s (single_indirect inode) block_index)
        else
          let block_index = block_index - PTRS_PER_BLOCK in
          if block_index < PTRS_PER_BLOCK * PTRS_PER_BLOCK then
            (if double_indirect inode = INVALID_BLOCK then Inl E_NOT_FOUND
             else
               let l1_index = block_index div PTRS_PER_BLOCK;
                   l2_index = block_index mod PTRS_PER_BLOCK
               in case getIndirectBlock s (double_indirect inode) l1_index of
                    Inl err \<Rightarrow> Inl err
                  | Inr l1 \<Rightarrow> getIndirectBlock s l1 l2_index)
          else Inl E_FILE_TOO_LARGE)"

text \<open>
  \<open>snap_ && snap_->needsCOW(b)\<close> followed by \<open>performCOW\<close>: the test the allocation and
  update paths make on every indirect block before they write into it.
\<close>

definition wantsCOW :: "FileSystem \<Rightarrow> BlockNo \<Rightarrow> bool" where
  "wantsCOW s b \<longleftrightarrow> snap_wired s \<and> needsCOW s b"

definition bump_block_count :: "Inode \<Rightarrow> Inode" where
  "bump_block_count inode = inode\<lparr>block_count := block_count inode + 1\<rparr>"

text \<open>
  \<open>getOrAllocFileBlock\<close> takes the inode by reference: the model returns it next to the
  state. The results of the \<open>writeInode\<close> calls that the source ignores are ignored here.
\<close>

definition getOrAlloc_direct ::
  "FileSystem \<Rightarrow> Inode \<Rightarrow> InodeId \<Rightarrow> u32 \<Rightarrow> FileSystem \<times> Inode \<times> (ErrorCode + BlockNo)" where
  "getOrAlloc_direct s inode inode_id block_index =
     (if direct_blocks inode ! unat block_index = INVALID_BLOCK then
        (case allocBlock s of
           (s1, Inl err) \<Rightarrow> (s1, inode, Inl err)
         | (s1, Inr b) \<Rightarrow>
             let inode1 = bump_block_count
                   (inode\<lparr>direct_blocks := (direct_blocks inode)[unat block_index := b]\<rparr>);
                 s2 = fst (writeInode s1 inode_id inode1)
             in (s2, inode1, Inr (direct_blocks inode1 ! unat block_index)))
      else (s, inode, Inr (direct_blocks inode ! unat block_index)))"

definition getOrAlloc_single ::
  "FileSystem \<Rightarrow> Inode \<Rightarrow> InodeId \<Rightarrow> u32 \<Rightarrow> FileSystem \<times> Inode \<times> (ErrorCode + BlockNo)" where
  "getOrAlloc_single s inode inode_id block_index =
     (case (if single_indirect inode = INVALID_BLOCK then
              (case allocIndirectBlock s of
                 (s1, Inl err) \<Rightarrow> (s1, inode, Some err)
               | (s1, Inr b) \<Rightarrow>
                   let inode1 = bump_block_count (inode\<lparr>single_indirect := b\<rparr>)
                   in (fst (writeInode s1 inode_id inode1), inode1, None))
            else (s, inode, None)) of
        (s1, inode1, Some err) \<Rightarrow> (s1, inode1, Inl err)
      | (s1, inode1, None) \<Rightarrow>
          (case (if wantsCOW s1 (single_indirect inode1) then
                   (case performCOW s1 (single_indirect inode1) of
                      (s2, Inl err) \<Rightarrow> (s2, inode1, Inl err)
                    | (s2, Inr c) \<Rightarrow>
                        if c \<noteq> single_indirect inode1 then
                          (let inode2 = inode1\<lparr>single_indirect := c\<rparr> in
                           case writeInode s2 inode_id inode2 of
                             (s3, err) \<Rightarrow>
                               if err \<noteq> OK then (s3, inode2, Inl err) else (s3, inode2, Inr c))
                        else (s2, inode1, Inr (single_indirect inode1)))
                 else (s1, inode1, Inr (single_indirect inode1))) of
             (s2, inode2, Inl err) \<Rightarrow> (s2, inode2, Inl err)
           | (s2, inode2, Inr indirect) \<Rightarrow>
               (case getIndirectBlock s2 indirect block_index of
                  Inr existing \<Rightarrow> (s2, inode2, Inr existing)
                | Inl _ \<Rightarrow>
                    (case allocBlock s2 of
                       (s3, Inl err) \<Rightarrow> (s3, inode2, Inl err)
                     | (s3, Inr b) \<Rightarrow>
                         (case setIndirectBlock s3 indirect block_index b of
                            (s4, err) \<Rightarrow>
                              if err \<noteq> OK
                              then (s4\<lparr>alloc := fst (freeBlock (alloc s4) b)\<rparr>, inode2, Inl err)
                              else
                                let inode3 = bump_block_count inode2
                                in (fst (writeInode s4 inode_id inode3), inode3, Inr b))))))"

definition getOrAlloc_double ::
  "FileSystem \<Rightarrow> Inode \<Rightarrow> InodeId \<Rightarrow> u32 \<Rightarrow> FileSystem \<times> Inode \<times> (ErrorCode + BlockNo)" where
  "getOrAlloc_double s inode inode_id block_index =
     (case (if double_indirect inode = INVALID_BLOCK then
              (case allocIndirectBlock s of
                 (s1, Inl err) \<Rightarrow> (s1, inode, Some err)
               | (s1, Inr b) \<Rightarrow>
                   let inode1 = bump_block_count (inode\<lparr>double_indirect := b\<rparr>)
                   in (fst (writeInode s1 inode_id inode1), inode1, None))
            else (s, inode, None)) of
        (s1, inode1, Some err) \<Rightarrow> (s1, inode1, Inl err)
      | (s1, inode1, None) \<Rightarrow>
          (case (if wantsCOW s1 (double_indirect inode1) then
                   (case performCOW s1 (double_indirect inode1) of
                      (s2, Inl err) \<Rightarrow> (s2, inode1, Inl err)
                    | (s2, Inr c) \<Rightarrow>
                        if c \<noteq> double_indirect inode1 then
                          (let inode2 = inode1\<lparr>double_indirect := c\<rparr> in
                           case writeInode s2 inode_id inode2 of
                             (s3, err) \<Rightarrow>
                               if err \<noteq> OK then (s3, inode2, Inl err) else (s3, inode2, Inr c))
                        else (s2, inode1, Inr (double_indirect inode1)))
                 else (s1, inode1, Inr (double_indirect inode1))) of
             (s2, inode2, Inl err) \<Rightarrow> (s2, inode2, Inl err)
           | (s2, inode2, Inr dbl) \<Rightarrow>
               let l1_index = block_index div PTRS_PER_BLOCK;
                   l2_index = block_index mod PTRS_PER_BLOCK
               in
               (case (case getIndirectBlock s2 dbl l1_index of
                        Inr l1 \<Rightarrow> (s2, inode2, Inr l1)
                      | Inl _ \<Rightarrow>
                          (case allocIndirectBlock s2 of
                             (s3, Inl err) \<Rightarrow> (s3, inode2, Inl err)
                           | (s3, Inr l1) \<Rightarrow>
                               (case setIndirectBlock s3 dbl l1_index l1 of
                                  (s4, err) \<Rightarrow>
                                    if err \<noteq> OK
                                    then (s4\<lparr>alloc := fst (freeBlock (alloc s4) l1)\<rparr>, inode2, Inl err)
                                    else
                                      let inode3 = bump_block_count inode2
                                      in (fst (writeInode s4 inode_id inode3), inode3, Inr l1)))) of
                  (s3, inode3, Inl err) \<Rightarrow> (s3, inode3, Inl err)
                | (s3, inode3, Inr l1_block) \<Rightarrow>
                    (case (if wantsCOW s3 l1_block then
                             (case performCOW s3 l1_block of
                                (s4, Inl err) \<Rightarrow> (s4, Inl err)
                              | (s4, Inr c) \<Rightarrow>
                                  if c \<noteq> l1_block then
                                    (case setIndirectBlock s4 dbl l1_index c of
                                       (s5, err) \<Rightarrow>
                                         if err \<noteq> OK then (s5, Inl err) else (s5, Inr c))
                                  else (s4, Inr l1_block))
                           else (s3, Inr l1_block)) of
                       (s4, Inl err) \<Rightarrow> (s4, inode3, Inl err)
                     | (s4, Inr l1_block) \<Rightarrow>
                         (case getIndirectBlock s4 l1_block l2_index of
                            Inr existing \<Rightarrow> (s4, inode3, Inr existing)
                          | Inl _ \<Rightarrow>
                              (case allocBlock s4 of
                                 (s5, Inl err) \<Rightarrow> (s5, inode3, Inl err)
                               | (s5, Inr b) \<Rightarrow>
                                   (case setIndirectBlock s5 l1_block l2_index b of
                                      (s6, err) \<Rightarrow>
                                        if err \<noteq> OK
                                        then (s6\<lparr>alloc := fst (freeBlock (alloc s6) b)\<rparr>,
                                              inode3, Inl err)
                                        else
                                          let inode4 = bump_block_count inode3
                                          in (fst (writeInode s6 inode_id inode4), inode4,
                                              Inr b))))))))"

definition getOrAllocFileBlock ::
  "FileSystem \<Rightarrow> Inode \<Rightarrow> InodeId \<Rightarrow> u32 \<Rightarrow> FileSystem \<times> Inode \<times> (ErrorCode + BlockNo)" where
  "getOrAllocFileBlock s inode inode_id block_index =
     (if block_index < NUM_DIRECT_BLOCKS then getOrAlloc_direct s inode inode_id block_index
      else
        let block_index = block_index - NUM_DIRECT_BLOCKS in
        if block_index < PTRS_PER_BLOCK then getOrAlloc_single s inode inode_id block_index
        else
          let block_index = block_index - PTRS_PER_BLOCK in
          if block_index < PTRS_PER_BLOCK * PTRS_PER_BLOCK
          then getOrAlloc_double s inode inode_id block_index
          else (s, inode, Inl E_FILE_TOO_LARGE))"

definition updateFileBlockPointer ::
  "FileSystem \<Rightarrow> Inode \<Rightarrow> InodeId \<Rightarrow> u32 \<Rightarrow> BlockNo \<Rightarrow> FileSystem \<times> Inode \<times> ErrorCode" where
  "updateFileBlockPointer s inode inode_id block_index new_block =
     (if block_index < NUM_DIRECT_BLOCKS then
        (let inode1 = inode\<lparr>direct_blocks := (direct_blocks inode)[unat block_index := new_block]\<rparr>
         in case writeInode s inode_id inode1 of (s1, err) \<Rightarrow> (s1, inode1, err))
      else
        let block_index = block_index - NUM_DIRECT_BLOCKS in
        if block_index < PTRS_PER_BLOCK then
          (if single_indirect inode = INVALID_BLOCK then (s, inode, E_INVALID_PARAM)
           else
             case (if wantsCOW s (single_indirect inode) then
                     (case performCOW s (single_indirect inode) of
                        (s1, Inl err) \<Rightarrow> (s1, inode, Inl err)
                      | (s1, Inr c) \<Rightarrow>
                          if c \<noteq> single_indirect inode then
                            (let inode1 = inode\<lparr>single_indirect := c\<rparr> in
                             case writeInode s1 inode_id inode1 of
                               (s2, err) \<Rightarrow>
                                 if err \<noteq> OK then (s2, inode1, Inl err) else (s2, inode1, Inr c))
                          else (s1, inode, Inr (single_indirect inode)))
                   else (s, inode, Inr (single_indirect inode))) of
               (s1, inode1, Inl err) \<Rightarrow> (s1, inode1, err)
             | (s1, inode1, Inr indirect) \<Rightarrow>
                 (case setIndirectBlock s1 indirect block_index new_block of
                    (s2, err) \<Rightarrow> (s2, inode1, err)))
        else
          let block_index = block_index - PTRS_PER_BLOCK in
          if block_index < PTRS_PER_BLOCK * PTRS_PER_BLOCK then
            (if double_indirect inode = INVALID_BLOCK then (s, inode, E_INVALID_PARAM)
             else
               case (if wantsCOW s (double_indirect inode) then
                       (case performCOW s (double_indirect inode) of
                          (s1, Inl err) \<Rightarrow> (s1, inode, Inl err)
                        | (s1, Inr c) \<Rightarrow>
                            if c \<noteq> double_indirect inode then
                              (let inode1 = inode\<lparr>double_indirect := c\<rparr> in
                               case writeInode s1 inode_id inode1 of
                                 (s2, err) \<Rightarrow>
                                   if err \<noteq> OK then (s2, inode1, Inl err) else (s2, inode1, Inr c))
                            else (s1, inode, Inr (double_indirect inode)))
                     else (s, inode, Inr (double_indirect inode))) of
                 (s1, inode1, Inl err) \<Rightarrow> (s1, inode1, err)
               | (s1, inode1, Inr l1_block) \<Rightarrow>
                   let l1_index = block_index div PTRS_PER_BLOCK;
                       l2_index = block_index mod PTRS_PER_BLOCK
                   in
                   (case readBlockInternal s1 l1_block of
                      Inl err \<Rightarrow> (s1, inode1, err)
                    | Inr l1_data \<Rightarrow>
                        if get_ptr l1_data (unat l1_index) = INVALID_BLOCK
                        then (s1, inode1, E_INVALID_PARAM)
                        else
                          case (if wantsCOW s1 (get_ptr l1_data (unat l1_index)) then
                                  (case performCOW s1 (get_ptr l1_data (unat l1_index)) of
                                     (s2, Inl err) \<Rightarrow> (s2, Inl err)
                                   | (s2, Inr c) \<Rightarrow>
                                       if c \<noteq> get_ptr l1_data (unat l1_index) then
                                         (case writeBlockInternal s2 l1_block
                                                 (set_ptr l1_data (unat l1_index) c) of
                                            (s3, err) \<Rightarrow>
                                              if err \<noteq> OK then (s3, Inl err) else (s3, Inr c))
                                       else (s2, Inr (get_ptr l1_data (unat l1_index))))
                                else (s1, Inr (get_ptr l1_data (unat l1_index)))) of
                            (s2, Inl err) \<Rightarrow> (s2, inode1, err)
                          | (s2, Inr l2_block) \<Rightarrow>
                              (case readBlockInternal s2 l2_block of
                                 Inl err \<Rightarrow> (s2, inode1, err)
                               | Inr l2_data \<Rightarrow>
                                   (case writeBlockInternal s2 l2_block
                                           (set_ptr l2_data (unat l2_index) new_block) of
                                      (s3, err) \<Rightarrow> (s3, inode1, err)))))
          else (s, inode, E_FILE_TOO_LARGE))"

definition cowDataBlockIfNeeded ::
  "FileSystem \<Rightarrow> Inode \<Rightarrow> InodeId \<Rightarrow> u32 \<Rightarrow> BlockNo \<Rightarrow> FileSystem \<times> Inode \<times> (ErrorCode + BlockNo)" where
  "cowDataBlockIfNeeded s inode inode_id block_index block_no =
     (if \<not> snap_wired s then (s, inode, Inr block_no)
      else if \<not> needsCOW s block_no then (s, inode, Inr block_no)
      else case performCOW s block_no of
             (s1, Inl err) \<Rightarrow> (s1, inode, Inl err)
           | (s1, Inr new_block) \<Rightarrow>
               (case updateFileBlockPointer s1 inode inode_id block_index new_block of
                  (s2, inode1, err) \<Rightarrow>
                    if err \<noteq> OK then (s2, inode1, Inl err) else (s2, inode1, Inr new_block)))"

subsection \<open>Freeing the blocks of a file\<close>

text \<open>
  \<open>freeFileBlocks\<close> changes the allocator and the inode it was handed, never the disk. One
  step of its loops frees a pointer and lowers \<open>block_count\<close> unless it is already zero.
\<close>

definition drop_block_count :: "Inode \<Rightarrow> Inode" where
  "drop_block_count inode =
     (if block_count inode > 0 then inode\<lparr>block_count := block_count inode - 1\<rparr> else inode)"

definition free_ptr :: "Allocator \<times> Inode \<Rightarrow> BlockNo \<Rightarrow> Allocator \<times> Inode" where
  "free_ptr st p =
     (if p \<noteq> INVALID_BLOCK then (fst (freeBlock (fst st) p), drop_block_count (snd st)) else st)"

definition block_ptrs :: "block_data \<Rightarrow> BlockNo list" where
  "block_ptrs blk = map (get_ptr blk) [0..<unat PTRS_PER_BLOCK]"

definition free_direct :: "Allocator \<times> Inode \<Rightarrow> nat \<Rightarrow> Allocator \<times> Inode" where
  "free_direct st i =
     (if direct_blocks (snd st) ! i \<noteq> INVALID_BLOCK
      then (fst (freeBlock (fst st) (direct_blocks (snd st) ! i)),
            drop_block_count
              ((snd st)\<lparr>direct_blocks := (direct_blocks (snd st))[i := INVALID_BLOCK]\<rparr>))
      else st)"

definition free_l1_entry :: "FileSystem \<Rightarrow> Allocator \<times> Inode \<Rightarrow> BlockNo \<Rightarrow> Allocator \<times> Inode" where
  "free_l1_entry s st l1 =
     (if l1 \<noteq> INVALID_BLOCK then
        (let st1 = (case readBlockInternal s l1 of
                      Inr l2_data \<Rightarrow> foldl free_ptr st (block_ptrs l2_data)
                    | Inl _ \<Rightarrow> st)
         in (fst (freeBlock (fst st1) l1), drop_block_count (snd st1)))
      else st)"

definition freeFileBlocks :: "FileSystem \<Rightarrow> Inode \<Rightarrow> u32 \<Rightarrow> FileSystem \<times> Inode" where
  "freeFileBlocks s inode from_block =
     (let st0 = foldl free_direct (alloc s, inode) [unat from_block..<unat NUM_DIRECT_BLOCKS];
          st1 = (if from_block \<le> NUM_DIRECT_BLOCKS \<and> single_indirect (snd st0) \<noteq> INVALID_BLOCK
                 then
                   (let st = (case readBlockInternal s (single_indirect (snd st0)) of
                                Inr block_data \<Rightarrow> foldl free_ptr st0 (block_ptrs block_data)
                              | Inl _ \<Rightarrow> st0)
                    in (fst (freeBlock (fst st) (single_indirect (snd st))),
                        drop_block_count ((snd st)\<lparr>single_indirect := INVALID_BLOCK\<rparr>)))
                 else st0);
          st2 = (if from_block \<le> NUM_DIRECT_BLOCKS + PTRS_PER_BLOCK
                    \<and> double_indirect (snd st1) \<noteq> INVALID_BLOCK
                 then
                   (let st = (case readBlockInternal s (double_indirect (snd st1)) of
                                Inr l1_data \<Rightarrow> foldl (free_l1_entry s) st1 (block_ptrs l1_data)
                              | Inl _ \<Rightarrow> st1)
                    in (fst (freeBlock (fst st) (double_indirect (snd st))),
                        drop_block_count ((snd st)\<lparr>double_indirect := INVALID_BLOCK\<rparr>)))
                 else st1)
      in (s\<lparr>alloc := fst st2\<rparr>, snd st2))"

subsection \<open>Time stamps\<close>

text \<open>\<open>currentTime()\<close> reads the clock: the operations take the reading as an argument.\<close>

definition updateAccessTime :: "i64 \<Rightarrow> Inode \<Rightarrow> Inode" where
  "updateAccessTime now inode = inode\<lparr>access_time := now\<rparr>"

definition updateModifyTime :: "i64 \<Rightarrow> Inode \<Rightarrow> Inode" where
  "updateModifyTime now inode = inode\<lparr>modify_time := now, access_time := now\<rparr>"

subsection \<open>Reading a file\<close>

text \<open>
  The read loop: \<open>bytes_read\<close> and \<open>length\<close> never wrap (the one is bounded by the other);
  \<open>current_offset\<close> is the 32-bit sum of the source.
\<close>

function read_loop ::
  "FileSystem \<Rightarrow> Inode \<Rightarrow> u32 \<Rightarrow> nat \<Rightarrow> nat \<Rightarrow> u8 list \<Rightarrow> ErrorCode + u8 list" where
  "read_loop s inode offset len bytes_read data =
     (if bytes_read < len then
        (let current_offset = offset + of_nat bytes_read;
             block_index = current_offset div BLOCK_SIZE;
             block_offset = unat (current_offset mod BLOCK_SIZE);
             to_read = min (unat BLOCK_SIZE - block_offset) (len - bytes_read)
         in case getFileBlock s inode block_index of
              Inl _ \<Rightarrow> read_loop s inode offset len (bytes_read + to_read)
                         (data @ replicate to_read 0)
            | Inr b \<Rightarrow>
                (case readBlockInternal s b of
                   Inl err \<Rightarrow> Inl err
                 | Inr block_buffer \<Rightarrow>
                     read_loop s inode offset len (bytes_read + to_read)
                       (data @ take to_read (drop block_offset block_buffer))))
      else Inr data)"
  by pat_completeness auto
termination
proof (relation "measure (\<lambda>(s, inode, offset, len, bytes_read, data). len - bytes_read)")
  show "wf (measure (\<lambda>(s, inode, offset, len, bytes_read, data). len - bytes_read))" by simp
next
  fix s :: FileSystem and inode :: Inode and offset :: u32 and len bytes_read :: nat
    and data :: "u8 list" and x xa xb xc x2
  assume lt: "bytes_read < len"
    and "x = offset + word_of_nat bytes_read"
    and bo: "xb = unat (x mod BLOCK_SIZE)"
    and tr: "xc = min (unat BLOCK_SIZE - xb) (len - bytes_read)"
  have "unat (x mod BLOCK_SIZE) < unat BLOCK_SIZE"
    by (simp add: BLOCK_SIZE_def unat_mod_distrib)
  with lt bo tr have "0 < xc" by simp
  with lt show "((s, inode, offset, len, bytes_read + xc, data @ replicate xc 0),
                 (s, inode, offset, len, bytes_read, data))
                \<in> measure (\<lambda>(s, inode, offset, len, bytes_read, data). len - bytes_read)"
    by simp
next
  fix s :: FileSystem and inode :: Inode and offset :: u32 and len bytes_read :: nat
    and data :: "u8 list" and x xa xb xc x2 and x2a :: "u8 list"
  assume lt: "bytes_read < len"
    and "x = offset + word_of_nat bytes_read"
    and bo: "xb = unat (x mod BLOCK_SIZE)"
    and tr: "xc = min (unat BLOCK_SIZE - xb) (len - bytes_read)"
  have "unat (x mod BLOCK_SIZE) < unat BLOCK_SIZE"
    by (simp add: BLOCK_SIZE_def unat_mod_distrib)
  with lt bo tr have "0 < xc" by simp
  with lt show "((s, inode, offset, len, bytes_read + xc, data @ take xc (drop xb x2a)),
                 (s, inode, offset, len, bytes_read, data))
                \<in> measure (\<lambda>(s, inode, offset, len, bytes_read, data). len - bytes_read)"
    by simp
qed

declare read_loop.simps [simp del]

text \<open>
  On success after the loop the access time is refreshed and the inode written back; the
  result of that \<open>writeInode\<close> is dropped by the source.
\<close>

definition readFileByInode ::
  "FileSystem \<Rightarrow> i64 \<Rightarrow> InodeId \<Rightarrow> u32 \<Rightarrow> u32 \<Rightarrow> FileSystem \<times> (ErrorCode + u8 list)" where
  "readFileByInode s now inode_id offset len =
     (case readInode s inode_id of
        Inl err \<Rightarrow> (s, Inl err)
      | Inr inode \<Rightarrow>
          if \<not> isRegularFile inode then (s, Inl E_IS_DIR)
          else if offset \<ge> isize inode then (s, Inr [])
          else
            let len = (if len = 0 \<or> offset + len > isize inode then isize inode - offset else len)
            in case read_loop s inode offset (unat len) 0 [] of
                 Inl err \<Rightarrow> (s, Inl err)
               | Inr data \<Rightarrow>
                   (fst (writeInode s inode_id (updateAccessTime now inode)), Inr data))"

subsection \<open>Writing a file\<close>

definition memcpy_into :: "u8 list \<Rightarrow> nat \<Rightarrow> u8 list \<Rightarrow> u8 list" where
  "memcpy_into buffer off chunk = take off buffer @ chunk @ drop (off + length chunk) buffer"

text \<open>
  The write loop. \<open>bytes_written\<close> is a \<open>uint32_t\<close> compared with \<open>data.size()\<close>, and the
  remaining length is cast to 32 bits before the minimum is taken, so a buffer of 4 GiB or
  more can make a pass that writes nothing: the loop is a partial function, \<open>None\<close> where
  it does not return. The outcome is \<open>Inl err\<close> where the source returns the failure and
  \<open>Inr bytes_written\<close> where it leaves the loop.
\<close>

partial_function (option) write_loop ::
  "FileSystem \<Rightarrow> Inode \<Rightarrow> InodeId \<Rightarrow> u8 list \<Rightarrow> u32 \<Rightarrow> u32 \<Rightarrow> (FileSystem \<times> (ErrorCode + u32)) option" where
  "write_loop s inode inode_id data offset bytes_written =
     (if unat bytes_written < length data then
        (let current_offset = offset + bytes_written;
             block_index = current_offset div BLOCK_SIZE;
             block_offset = current_offset mod BLOCK_SIZE;
             to_write = min (BLOCK_SIZE - block_offset)
                            (of_nat (length data - unat bytes_written) :: u32)
         in case getOrAllocFileBlock s inode inode_id block_index of
              (s1, inode1, Inl err) \<Rightarrow>
                if bytes_written > 0 then Some (s1, Inr bytes_written) else Some (s1, Inl err)
            | (s1, inode1, Inr block_no) \<Rightarrow>
                (case cowDataBlockIfNeeded s1 inode1 inode_id block_index block_no of
                   (s2, inode2, Inl err) \<Rightarrow>
                     if bytes_written > 0 then Some (s2, Inr bytes_written) else Some (s2, Inl err)
                 | (s2, inode2, Inr block_no) \<Rightarrow>
                     (let block_buffer =
                            (if block_offset \<noteq> 0 \<or> to_write \<noteq> BLOCK_SIZE then
                               (case readBlockInternal s2 block_no of
                                  Inr buf \<Rightarrow> buf
                                | Inl _ \<Rightarrow> zero_block)
                             else zero_block);
                          chunk = take (unat to_write) (drop (unat bytes_written) data)
                      in case writeBlockInternal s2 block_no
                                (memcpy_into block_buffer (unat block_offset) chunk) of
                           (s3, err) \<Rightarrow>
                             if err \<noteq> OK then
                               (if bytes_written > 0 then Some (s3, Inr bytes_written)
                                else Some (s3, Inl err))
                             else write_loop s3 inode2 inode_id data offset
                                    (bytes_written + to_write))))
      else Some (s, Inr bytes_written))"

definition writeFileByInode ::
  "FileSystem \<Rightarrow> i64 \<Rightarrow> InodeId \<Rightarrow> u8 list \<Rightarrow> u32 \<Rightarrow> (FileSystem \<times> (ErrorCode + u32)) option" where
  "writeFileByInode s now inode_id data offset =
     (if data = [] then Some (s, Inr 0)
      else case readInode s inode_id of
        Inl err \<Rightarrow> Some (s, Inl err)
      | Inr inode \<Rightarrow>
          if \<not> isRegularFile inode then Some (s, Inl E_IS_DIR)
          else
            let write_end = offset + (of_nat (length data) :: u32) in
            if (ucast write_end :: 64 word) > maxFileSize then Some (s, Inl E_FILE_TOO_LARGE)
            else
              case write_loop s inode inode_id data offset 0 of
                None \<Rightarrow> None
              | Some (s1, Inl err) \<Rightarrow> Some (s1, Inl err)
              | Some (s1, Inr bytes_written) \<Rightarrow>
                  (case readInode s1 inode_id of
                     Inr updated \<Rightarrow>
                       let updated1 = (if write_end > isize updated
                                       then updated\<lparr>isize := write_end\<rparr> else updated)
                       in Some (fst (writeInode s1 inode_id (updateModifyTime now updated1)),
                                Inr bytes_written)
                   | Inl _ \<Rightarrow> Some (s1, Inr bytes_written)))"

section \<open>Directory: entries, paths and the operations by path\<close>

text \<open>
  A directory block is read into an array of sixteen 64-byte \<open>DirEntry\<close> records: inode
  (4 bytes, little-endian), name length, file type, record length (2 bytes), name (56 bytes).
  A path is a \<open>std::string\<close>; its characters are compared with the name bytes of an entry.
\<close>

definition byte_at :: "u8 list \<Rightarrow> nat \<Rightarrow> u8" where
  "byte_at bs i = (if i < length bs then bs ! i else 0)"

definition entry_inode :: "block_data \<Rightarrow> nat \<Rightarrow> InodeId" where
  "entry_inode blk i = le32 (drop (64 * i) blk)"

definition entry_name_len :: "block_data \<Rightarrow> nat \<Rightarrow> u8" where
  "entry_name_len blk i = byte_at blk (64 * i + 4)"

definition entry_isValid :: "block_data \<Rightarrow> nat \<Rightarrow> bool" where
  "entry_isValid blk i \<longleftrightarrow> entry_inode blk i \<noteq> INVALID_INODE"

definition entry_getName :: "block_data \<Rightarrow> nat \<Rightarrow> u8 list" where
  "entry_getName blk i = take (unat (entry_name_len blk i)) (drop (64 * i + 8) blk)"

definition name_bytes :: "string \<Rightarrow> u8 list" where
  "name_bytes name = map of_char name"

text \<open>\<open>DirEntry::init\<close> followed by the store into the entry array, for building blocks.\<close>

definition file_type_code :: "FileType \<Rightarrow> u8" where
  "file_type_code t = (case t of FREE \<Rightarrow> 0 | REGULAR \<Rightarrow> 1 | DIRECTORY \<Rightarrow> 2 | SYMLINK \<Rightarrow> 3)"

definition DirEntry_init :: "InodeId \<Rightarrow> string \<Rightarrow> FileType \<Rightarrow> u8 list" where
  "DirEntry_init ino n t =
     (let name_len = min (length n) MAX_FILENAME_LEN in
      enc32 ino @ [of_nat name_len, file_type_code t, 64, 0]
        @ take name_len (name_bytes n) @ replicate (MAX_FILENAME_LEN - name_len) 0)"

definition DirEntry_clear :: "u8 list" where
  "DirEntry_clear = enc32 INVALID_INODE @ replicate 60 0"

primrec find_entry :: "block_data \<Rightarrow> u8 list \<Rightarrow> nat list \<Rightarrow> InodeId option" where
  "find_entry blk name [] = None"
| "find_entry blk name (i # rest) =
     (if entry_isValid blk i \<and> entry_getName blk i = name then Some (entry_inode blk i)
      else find_entry blk name rest)"

primrec lookup_blocks :: "FileSystem \<Rightarrow> Inode \<Rightarrow> u8 list \<Rightarrow> nat list \<Rightarrow> ErrorCode + InodeId" where
  "lookup_blocks s dir name [] = Inl E_NOT_FOUND"
| "lookup_blocks s dir name (bi # rest) =
     (case getFileBlock s dir (of_nat bi) of
        Inl _ \<Rightarrow> lookup_blocks s dir name rest
      | Inr b \<Rightarrow>
          (case readBlockInternal s b of
             Inl _ \<Rightarrow> lookup_blocks s dir name rest
           | Inr entries \<Rightarrow>
               (case find_entry entries name [0..<DIRENTRIES_PER_BLOCK] of
                  Some ino \<Rightarrow> Inr ino
                | None \<Rightarrow> lookup_blocks s dir name rest)))"

text \<open>\<open>lookupInternal\<close> returns the matching entry; its callers here use the inode only.\<close>

definition dir_num_blocks :: "Inode \<Rightarrow> u32" where
  "dir_num_blocks dir =
     (let num_blocks = (isize dir + BLOCK_SIZE - 1) div BLOCK_SIZE
      in if num_blocks = 0 then 1 else num_blocks)"

definition lookupInternal :: "FileSystem \<Rightarrow> InodeId \<Rightarrow> string \<Rightarrow> ErrorCode + InodeId" where
  "lookupInternal s dir_inode name =
     (case readInode s dir_inode of
        Inl err \<Rightarrow> Inl err
      | Inr dir \<Rightarrow>
          if \<not> isDirectory dir then Inl E_NOT_DIR
          else lookup_blocks s dir (name_bytes name) [0..<unat (dir_num_blocks dir)])"

subsection \<open>Path strings\<close>

text \<open>\<open>while (result.size() > 1 && result.back() == '/') result.pop_back()\<close>, on the reversed string.\<close>

fun strip_trailing_rev :: "string \<Rightarrow> string" where
  "strip_trailing_rev [] = []"
| "strip_trailing_rev (c # rest) =
     (if rest \<noteq> [] \<and> c = CHR ''/'' then strip_trailing_rev rest else c # rest)"

definition strip_trailing :: "string \<Rightarrow> string" where
  "strip_trailing result = rev (strip_trailing_rev (rev result))"

fun collapse_slashes :: "bool \<Rightarrow> string \<Rightarrow> string" where
  "collapse_slashes last_was_slash [] = []"
| "collapse_slashes last_was_slash (c # cs) =
     (if c = CHR ''/'' then
        (if \<not> last_was_slash then c # collapse_slashes True cs else collapse_slashes True cs)
      else c # collapse_slashes False cs)"

definition normalizePath :: "string \<Rightarrow> string" where
  "normalizePath path =
     (if path = [] then ''/''
      else
        let result = (if hd path \<noteq> CHR ''/'' then CHR ''/'' # path else path)
        in collapse_slashes False (strip_trailing result))"

text \<open>
  \<open>std::getline(iss, token, '/')\<close> until the stream is exhausted: a token ends at each
  \<open>/\<close>, and nothing follows a final \<open>/\<close>.
\<close>

function getline_tokens :: "string \<Rightarrow> string list" where
  "getline_tokens s =
     (if s = [] then []
      else
        let token = takeWhile (\<lambda>c. c \<noteq> CHR ''/'') s;
            rest = dropWhile (\<lambda>c. c \<noteq> CHR ''/'') s
        in if rest = [] then [token] else token # getline_tokens (tl rest))"
  by pat_completeness auto
termination
proof (relation "measure length")
  show "wf (measure length)" by simp
next
  fix s x xa :: string
  assume "s \<noteq> []" and "xa = dropWhile (\<lambda>c. c \<noteq> CHR ''/'') s" and "xa \<noteq> []"
  then have "length (tl xa) < length xa" by simp
  moreover have "length xa \<le> length s"
    using \<open>xa = dropWhile (\<lambda>c. c \<noteq> CHR ''/'') s\<close> by (simp add: length_dropWhile_le)
  ultimately show "(tl xa, s) \<in> measure length" by simp
qed

declare getline_tokens.simps [simp del]

definition split_step :: "string list \<Rightarrow> string \<Rightarrow> string list" where
  "split_step components token =
     (if token \<noteq> [] \<and> token \<noteq> ''.'' then
        (if token = ''..'' then (if components \<noteq> [] then butlast components else components)
         else components @ [token])
      else components)"

definition splitPath :: "string \<Rightarrow> string list" where
  "splitPath path =
     (let normalized = normalizePath path in
      if normalized = [] \<or> normalized = ''/'' then []
      else foldl split_step [] (getline_tokens normalized))"

text \<open>
  What a path names, for the statements about normalisation: its components, the maximal
  runs of characters other than \<open>/\<close>, in order; and the absence of two \<open>/\<close> in a row.
\<close>

fun runs :: "string \<Rightarrow> string \<Rightarrow> string list" where
  "runs cur [] = (if cur = [] then [] else [cur])"
| "runs cur (c # cs) =
     (if c = CHR ''/'' then (if cur = [] then runs [] cs else cur # runs [] cs)
      else runs (cur @ [c]) cs)"

definition path_components :: "string \<Rightarrow> string list" where
  "path_components path = runs [] path"

fun no_double_slash :: "string \<Rightarrow> bool" where
  "no_double_slash (a # b # rest) = (\<not> (a = CHR ''/'' \<and> b = CHR ''/'') \<and> no_double_slash (b # rest))"
| "no_double_slash rest = True"

definition isValidFilename :: "string \<Rightarrow> bool" where
  "isValidFilename name \<longleftrightarrow>
     name \<noteq> [] \<and> \<not> length name > MAX_FILENAME_LEN \<and> name \<noteq> ''.'' \<and> name \<noteq> ''..'' \<and>
     (\<forall>c \<in> set name. \<not> (c = CHR ''/'' \<or> c = CHR 0x00))"

definition isValidPath :: "string \<Rightarrow> bool" where
  "isValidPath path \<longleftrightarrow>
     path \<noteq> [] \<and> hd path = CHR ''/'' \<and> (\<forall>comp \<in> set (splitPath path). isValidFilename comp)"

primrec walk_components :: "FileSystem \<Rightarrow> InodeId \<Rightarrow> string list \<Rightarrow> ErrorCode + InodeId" where
  "walk_components s current [] = Inr current"
| "walk_components s current (name # rest) =
     (case readInode s current of
        Inl err \<Rightarrow> Inl err
      | Inr inode \<Rightarrow>
          if \<not> isDirectory inode then Inl E_NOT_DIR
          else case lookupInternal s current name of
                 Inl _ \<Rightarrow> Inl E_NOT_FOUND
               | Inr ino \<Rightarrow> walk_components s ino rest)"

definition resolvePath :: "FileSystem \<Rightarrow> string \<Rightarrow> ErrorCode + InodeId" where
  "resolvePath s path =
     (let normalized = normalizePath path in
      if normalized = ''/'' then Inr ROOT_INODE
      else
        let components = splitPath normalized in
        if components = [] then Inr ROOT_INODE
        else walk_components s ROOT_INODE components)"

subsection \<open>Operations by path\<close>

definition readFile ::
  "FileSystem \<Rightarrow> i64 \<Rightarrow> string \<Rightarrow> u32 \<Rightarrow> u32 \<Rightarrow> FileSystem \<times> (ErrorCode + u8 list)" where
  "readFile s now path offset len =
     (case resolvePath s path of
        Inl err \<Rightarrow> (s, Inl err)
      | Inr inode_id \<Rightarrow> readFileByInode s now inode_id offset len)"

definition writeFile ::
  "FileSystem \<Rightarrow> i64 \<Rightarrow> string \<Rightarrow> u8 list \<Rightarrow> u32 \<Rightarrow> (FileSystem \<times> (ErrorCode + u32)) option" where
  "writeFile s now path data offset =
     (case resolvePath s path of
        Inl err \<Rightarrow> Some (s, Inl err)
      | Inr inode_id \<Rightarrow> writeFileByInode s now inode_id data offset)"

section \<open>SnapshotManager: creating a snapshot\<close>

text \<open>The class constant \<open>SnapshotManager::MAX_SNAPSHOTS\<close> hides the one of FSTypes.h (16).\<close>

definition MAX_SNAPSHOT_NAME_LEN :: nat where "MAX_SNAPSHOT_NAME_LEN = 32"
definition MAX_SNAPSHOTS :: nat where "MAX_SNAPSHOTS = 15"

fun find_snapshot_from :: "SnapshotInfo list \<Rightarrow> string \<Rightarrow> nat \<Rightarrow> int" where
  "find_snapshot_from [] name i = -1"
| "find_snapshot_from (x # xs) name i =
     (if sn_name x = name \<and> sn_valid x then to_int32 i else find_snapshot_from xs name (Suc i))"

definition findSnapshotIndex :: "SnapshotManager \<Rightarrow> string \<Rightarrow> int" where
  "findSnapshotIndex m name = find_snapshot_from (snapshots m) name 0"

definition enc64 :: "64 word \<Rightarrow> u8 list" where
  "enc64 v = map (\<lambda>i. ucast (drop_bit (8 * i) v)) [0..<8]"

definition SnapshotMeta_bytes :: "SnapshotInfo \<Rightarrow> u8 list" where
  "SnapshotMeta_bytes info =
     (let name_len = min (length (sn_name info)) (MAX_SNAPSHOT_NAME_LEN - 1) in
      take name_len (name_bytes (sn_name info)) @ replicate (MAX_SNAPSHOT_NAME_LEN - name_len) 0
      @ enc64 (sn_create_time info) @ enc32 (sn_root_inode info) @ enc32 (sn_block_count info)
      @ enc32 (if sn_valid info then 1 else 0) @ replicate 12 0)"

definition snapshot_list_bytes :: "SnapshotInfo list \<Rightarrow> block_data" where
  "snapshot_list_bytes xs =
     (let body = enc32 (of_nat (length xs)) @ replicate 4 0
                 @ concat (map SnapshotMeta_bytes (take MAX_SNAPSHOTS xs))
      in body @ replicate (1024 - length body) 0)"

definition allocSnapshotListBlock :: "FileSystem \<Rightarrow> FileSystem \<times> ErrorCode" where
  "allocSnapshotListBlock s =
     (case allocBlock s of
        (s1, Inl err) \<Rightarrow> (s1, err)
      | (s1, Inr b) \<Rightarrow>
          (s1\<lparr>snapmgr := (snapmgr s1)\<lparr>sm_snapshot_list_block := b\<rparr>,
              alloc := (alloc s1)\<lparr>superblock := (superblock (alloc s1))\<lparr>snapshot_list_block := b\<rparr>\<rparr>\<rparr>,
           OK))"

definition no_list_block :: "SnapshotManager \<Rightarrow> bool" where
  "no_list_block m \<longleftrightarrow> sm_snapshot_list_block m = 0 \<or> sm_snapshot_list_block m = INVALID_BLOCK"

definition saveSnapshotList :: "FileSystem \<Rightarrow> FileSystem \<times> ErrorCode" where
  "saveSnapshotList s =
     (if snapshots (snapmgr s) = [] \<and> no_list_block (snapmgr s) then (s, OK)
      else
        case (if no_list_block (snapmgr s) then allocSnapshotListBlock s else (s, OK)) of
          (s1, err) \<Rightarrow>
            if err \<noteq> OK then (s1, err)
            else writeBlockInternal s1 (sm_snapshot_list_block (snapmgr s1))
                   (snapshot_list_bytes (snapshots (snapmgr s1))))"

text \<open>
  \<open>createSnapshot\<close> calls \<open>cloneInodeTree\<close> (the recursive copy of the directory tree) and
  \<open>Allocator::sync\<close> (the write-out of bitmaps and superblock). Both are arguments of the
  model, typed by what they touch: the clone works on the allocator, the disk and the inode
  table and counts shared blocks; the sync works on the allocator and the disk. Neither
  reaches the snapshot list, and what is proved holds for every behaviour of the two.
\<close>

type_synonym clone_fn =
  "Allocator \<times> DiskImage \<times> (InodeId \<Rightarrow> Inode) \<Rightarrow> InodeId
     \<Rightarrow> (Allocator \<times> DiskImage \<times> (InodeId \<Rightarrow> Inode)) \<times> u32 \<times> (ErrorCode + InodeId)"

type_synonym sync_fn = "Allocator \<times> DiskImage \<Rightarrow> (Allocator \<times> DiskImage) \<times> ErrorCode"

definition run_clone :: "clone_fn \<Rightarrow> FileSystem \<Rightarrow> InodeId \<Rightarrow> FileSystem \<times> (ErrorCode + InodeId)" where
  "run_clone cloneInodeTree s src =
     (case cloneInodeTree (alloc s, disk s, inode_table s) src of
        ((a, d, t), shared, r) \<Rightarrow>
          (s\<lparr>alloc := a, disk := d, inode_table := t,
             snapmgr := (snapmgr s)\<lparr>sm_stats := (sm_stats (snapmgr s))
                \<lparr>shared_blocks := shared_blocks (sm_stats (snapmgr s)) + shared\<rparr>\<rparr>\<rparr>, r))"

definition run_sync :: "sync_fn \<Rightarrow> FileSystem \<Rightarrow> FileSystem \<times> ErrorCode" where
  "run_sync alloc_sync s =
     (case alloc_sync (alloc s, disk s) of ((a, d), err) \<Rightarrow> (s\<lparr>alloc := a, disk := d\<rparr>, err))"

definition createSnapshot ::
  "clone_fn \<Rightarrow> sync_fn \<Rightarrow> FileSystem \<Rightarrow> i64 \<Rightarrow> string \<Rightarrow> FileSystem \<times> ErrorCode" where
  "createSnapshot cloneInodeTree alloc_sync s now name =
     (if \<not> sm_loaded (snapmgr s) then (s, E_INVALID_PARAM)
      else if name = [] \<or> length name > MAX_SNAPSHOT_NAME_LEN - 1 then (s, E_NAME_TOO_LONG)
      else if findSnapshotIndex (snapmgr s) name \<ge> 0 then (s, E_SNAPSHOT_EXISTS)
      else if length (snapshots (snapmgr s)) \<ge> MAX_SNAPSHOTS then (s, E_MAX_SNAPSHOTS)
      else
        case run_clone cloneInodeTree s (root_inode (superblock (alloc s))) of
          (s1, Inl err) \<Rightarrow> (s1, err)
        | (s1, Inr snapshot_root) \<Rightarrow>
            let info = \<lparr>sn_name = name, sn_create_time = now, sn_root_inode = snapshot_root,
                        sn_block_count = (case readInode s1 snapshot_root of
                                            Inr root \<Rightarrow> block_count root | Inl _ \<Rightarrow> 0),
                        sn_valid = True\<rparr>;
                m = snapmgr s1;
                m1 = m\<lparr>snapshots := snapshots m @ [info], sm_dirty := True,
                       sm_stats := (sm_stats m)\<lparr>total_snapshots := total_snapshots (sm_stats m) + 1\<rparr>\<rparr>;
                s2 = s1\<lparr>snapmgr := m1,
                        alloc := (alloc s1)\<lparr>superblock := (superblock (alloc s1))
                                   \<lparr>snapshot_count := of_nat (length (snapshots m1))\<rparr>\<rparr>\<rparr>
            in case saveSnapshotList s2 of
                 (s3, err) \<Rightarrow>
                   if err \<noteq> OK then (s3, err)
                   else case run_sync alloc_sync s3 of
                          (s4, err) \<Rightarrow>
                            if err \<noteq> OK then (s4, err)
                            else (s4\<lparr>snapmgr := (snapmgr s4)\<lparr>sm_dirty := False\<rparr>\<rparr>, OK))"

section \<open>Block cache\<close>

text \<open>
  \<open>lru_list_\<close> holds the cached blocks, most recently used first; \<open>cache_map_\<close> maps a block
  number to its position in the list, so a lookup is a search of the list for the number.
\<close>

record CacheBlock =
  cb_block_no :: BlockNo
  cb_data :: block_data
  cb_dirty :: bool

record LRUCache =
  capacity :: u32
  lru_list :: "CacheBlock list"
  hits :: "64 word"
  misses :: "64 word"
  evictions :: "64 word"

definition cache_find :: "LRUCache \<Rightarrow> BlockNo \<Rightarrow> CacheBlock option" where
  "cache_find c block_no = find (\<lambda>b. cb_block_no b = block_no) (lru_list c)"

fun remove_entry :: "BlockNo \<Rightarrow> CacheBlock list \<Rightarrow> CacheBlock list" where
  "remove_entry n [] = []"
| "remove_entry n (b # bs) = (if cb_block_no b = n then bs else b # remove_entry n bs)"

definition LRUCache_get :: "LRUCache \<Rightarrow> BlockNo \<Rightarrow> LRUCache \<times> block_data option" where
  "LRUCache_get c block_no =
     (case cache_find c block_no of
        None \<Rightarrow> (c\<lparr>misses := misses c + 1\<rparr>, None)
      | Some b \<Rightarrow>
          (c\<lparr>lru_list := b # remove_entry block_no (lru_list c), hits := hits c + 1\<rparr>,
           Some (cb_data b)))"

text \<open>
  \<open>while (lru_list_.size() >= capacity_) evictLRU()\<close>: with a capacity of zero and an empty
  list \<open>evictLRU\<close> does nothing and the loop never ends, which is \<open>None\<close> here. The
  constructor and \<open>setCapacity\<close> keep the capacity at 1 or more.
\<close>

function evict_to_fit :: "LRUCache \<Rightarrow> LRUCache option" where
  "evict_to_fit c =
     (if length (lru_list c) \<ge> unat (capacity c) then
        (if lru_list c = [] then None
         else evict_to_fit (c\<lparr>lru_list := butlast (lru_list c), evictions := evictions c + 1\<rparr>))
      else Some c)"
  by pat_completeness auto
termination
  by (relation "measure (\<lambda>c. length (lru_list c))") auto

declare evict_to_fit.simps [simp del]

definition LRUCache_put :: "LRUCache \<Rightarrow> BlockNo \<Rightarrow> block_data \<Rightarrow> bool \<Rightarrow> LRUCache option" where
  "LRUCache_put c block_no data dirty =
     (case cache_find c block_no of
        Some b \<Rightarrow>
          Some (c\<lparr>lru_list := b\<lparr>cb_data := data, cb_dirty := cb_dirty b \<or> dirty\<rparr>
                               # remove_entry block_no (lru_list c)\<rparr>)
      | None \<Rightarrow>
          (case evict_to_fit c of
             None \<Rightarrow> None
           | Some c1 \<Rightarrow>
               Some (c1\<lparr>lru_list := \<lparr>cb_block_no = block_no, cb_data = data, cb_dirty = dirty\<rparr>
                                      # lru_list c1\<rparr>)))"

definition getDirtyBlocks :: "LRUCache \<Rightarrow> (BlockNo \<times> block_data) list" where
  "getDirtyBlocks c = map (\<lambda>b. (cb_block_no b, cb_data b)) (filter cb_dirty (lru_list c))"

fun clear_first :: "BlockNo \<Rightarrow> CacheBlock list \<Rightarrow> CacheBlock list" where
  "clear_first n [] = []"
| "clear_first n (b # bs) =
     (if cb_block_no b = n then b\<lparr>cb_dirty := False\<rparr> # bs else b # clear_first n bs)"

definition clearDirty :: "LRUCache \<Rightarrow> BlockNo \<Rightarrow> LRUCache" where
  "clearDirty c block_no = c\<lparr>lru_list := clear_first block_no (lru_list c)\<rparr>"

text \<open>The list with the dirty flag cleared on every block whose number is in \<open>K\<close>.\<close>

definition clear_keys :: "BlockNo set \<Rightarrow> CacheBlock list \<Rightarrow> CacheBlock list" where
  "clear_keys K l = map (\<lambda>b. if cb_block_no b \<in> K then b\<lparr>cb_dirty := False\<rparr> else b) l"

record CachedDisk =
  cd_disk :: "DiskImage option"
  cache :: LRUCache
  cache_enabled :: bool
  write_through :: bool

definition cached_readBlock :: "CachedDisk \<Rightarrow> BlockNo \<Rightarrow> (CachedDisk \<times> (ErrorCode + block_data)) option" where
  "cached_readBlock cd block_no =
     (case cd_disk cd of
        None \<Rightarrow> Some (cd, Inl E_INVALID_PARAM)
      | Some d \<Rightarrow>
          case (if cache_enabled cd then LRUCache_get (cache cd) block_no
                else (cache cd, None)) of
            (c1, Some data) \<Rightarrow> Some (cd\<lparr>cache := c1\<rparr>, Inr data)
          | (c1, None) \<Rightarrow>
              (case disk_readBlock d block_no of
                 Inl err \<Rightarrow> Some (cd\<lparr>cache := c1\<rparr>, Inl err)
               | Inr buffer \<Rightarrow>
                   if cache_enabled cd then
                     (case LRUCache_put c1 block_no buffer False of
                        None \<Rightarrow> None
                      | Some c2 \<Rightarrow> Some (cd\<lparr>cache := c2\<rparr>, Inr buffer))
                   else Some (cd\<lparr>cache := c1\<rparr>, Inr buffer)))"

definition cached_writeBlock ::
  "CachedDisk \<Rightarrow> BlockNo \<Rightarrow> block_data \<Rightarrow> bool \<Rightarrow> (CachedDisk \<times> ErrorCode) option" where
  "cached_writeBlock cd block_no buffer wt =
     (case cd_disk cd of
        None \<Rightarrow> Some (cd, E_INVALID_PARAM)
      | Some d \<Rightarrow>
          let do_write_through = wt \<or> write_through cd in
          case (if cache_enabled cd
                then LRUCache_put (cache cd) block_no buffer (\<not> do_write_through)
                else Some (cache cd)) of
            None \<Rightarrow> None
          | Some c1 \<Rightarrow>
              if do_write_through \<or> \<not> cache_enabled cd then
                (case disk_writeBlock d block_no buffer of
                   (d1, err) \<Rightarrow>
                     if err \<noteq> OK then Some (cd\<lparr>cd_disk := Some d1, cache := c1\<rparr>, err)
                     else Some (cd\<lparr>cd_disk := Some d1,
                                   cache := (if cache_enabled cd then clearDirty c1 block_no else c1)\<rparr>,
                                OK))
              else Some (cd\<lparr>cache := c1\<rparr>, OK))"

fun flush_loop ::
  "DiskImage \<Rightarrow> LRUCache \<Rightarrow> (BlockNo \<times> block_data) list \<Rightarrow> DiskImage \<times> LRUCache \<times> ErrorCode" where
  "flush_loop d c [] = (d, c, OK)"
| "flush_loop d c ((block_no, data) # rest) =
     (case disk_writeBlock d block_no data of
        (d1, err) \<Rightarrow>
          if err \<noteq> OK then (d1, c, err)
          else flush_loop d1 (clearDirty c block_no) rest)"

definition flush :: "CachedDisk \<Rightarrow> CachedDisk \<times> ErrorCode" where
  "flush cd =
     (case cd_disk cd of
        None \<Rightarrow> (cd, E_INVALID_PARAM)
      | Some d \<Rightarrow>
          (case flush_loop d (cache cd) (getDirtyBlocks (cache cd)) of
             (d1, c1, err) \<Rightarrow>
               if err \<noteq> OK then (cd\<lparr>cd_disk := Some d1, cache := c1\<rparr>, err)
               else (cd\<lparr>cd_disk := Some d1, cache := c1\<rparr>, disk_sync d1)))"

definition setCacheEnabled :: "CachedDisk \<Rightarrow> bool \<Rightarrow> CachedDisk" where
  "setCacheEnabled cd enabled = cd\<lparr>cache_enabled := enabled\<rparr>"

section \<open>Directory: truncating a file\<close>

text \<open>
  \<open>Directory::truncate\<close>. The block counts are the 32-bit quotients of the source, so
  \<open>new_size + BLOCK_SIZE - 1\<close> wraps for sizes within 1023 bytes of \<open>2 ^ 32\<close>. The result
  of \<open>freeFileBlocks\<close> is dropped by the source; the inode is written back last.
\<close>

definition truncate :: "FileSystem \<Rightarrow> i64 \<Rightarrow> string \<Rightarrow> u32 \<Rightarrow> FileSystem \<times> ErrorCode" where
  "truncate s now path new_size =
     (case resolvePath s path of
        Inl err \<Rightarrow> (s, err)
      | Inr inode_id \<Rightarrow>
          (case readInode s inode_id of
             Inl err \<Rightarrow> (s, err)
           | Inr inode \<Rightarrow>
               if \<not> isRegularFile inode then (s, E_IS_DIR)
               else
                 case (if new_size \<ge> isize inode then (s, inode\<lparr>isize := new_size\<rparr>)
                       else
                         let new_blocks = (new_size + BLOCK_SIZE - 1) div BLOCK_SIZE;
                             old_blocks = (isize inode + BLOCK_SIZE - 1) div BLOCK_SIZE
                         in case (if new_blocks < old_blocks
                                  then freeFileBlocks s inode new_blocks else (s, inode)) of
                              (s1, inode1) \<Rightarrow> (s1, inode1\<lparr>isize := new_size\<rparr>)) of
                   (s1, inode1) \<Rightarrow> writeInode s1 inode_id (updateModifyTime now inode1)))"

section \<open>Comparing two allocator states\<close>

text \<open>
  The vocabulary for what a run of \<open>freeBlock\<close> calls does to one block. \<open>same_layout\<close>:
  the fields no \<open>freeBlock\<close> touches. \<open>no_gain\<close>: the block is not allocated afterwards unless
  it was before, with no more references. \<open>released\<close>: the block is deallocated, or it was
  shared and has lost a reference.
\<close>

definition same_layout :: "Allocator \<Rightarrow> Allocator \<Rightarrow> bool" where
  "same_layout a a' \<longleftrightarrow>
     loaded a' = loaded a \<and> refcount_enabled a' = refcount_enabled a \<and>
     data_block_start (superblock a') = data_block_start (superblock a) \<and>
     data_block_count (superblock a') = data_block_count (superblock a) \<and>
     total_inodes (superblock a') = total_inodes (superblock a) \<and>
     inode_table_start (superblock a') = inode_table_start (superblock a) \<and>
     length (block_bitmap a') = length (block_bitmap a) \<and>
     length (block_refcount a') = length (block_refcount a)"

definition no_gain :: "Allocator \<Rightarrow> Allocator \<Rightarrow> BlockNo \<Rightarrow> bool" where
  "no_gain a a' b \<longleftrightarrow>
     same_layout a a' \<and>
     (isBlockAllocated a' b \<longrightarrow> isBlockAllocated a b \<and> getBlockRef a' b \<le> getBlockRef a b)"

definition released :: "Allocator \<Rightarrow> Allocator \<Rightarrow> BlockNo \<Rightarrow> bool" where
  "released a a' b \<longleftrightarrow>
     no_gain a a' b \<and>
     (isBlockAllocated a' b \<longrightarrow> 1 < getBlockRef a b \<and> getBlockRef a' b < getBlockRef a b)"

section \<open>A concrete image\<close>

text \<open>
  A mounted image of 40 blocks with data blocks 8 to 39 and 16 inodes. The root directory
  (inode 0, block 8) holds the file \<open>f\<close> (inode 1, one block, 12 bytes), the directory \<open>d\<close>
  (inode 2, block 10) and the sparse file \<open>g\<close> (inode 3): twelve direct blocks 12 to 23, a
  single-indirect block 24 with file blocks 12 and 13 in blocks 25 and 26, and a
  double-indirect block 27 whose first table 28 holds file block 268 in block 29. One
  snapshot \<open>v1\<close> exists (root inode 5 with directory block 30, the clone 6 of \<open>f\<close>), so block 9
  is referenced twice; block 31 holds the snapshot list. Blocks 11 and 32 to 39 are free.
\<close>

definition ex_sb :: Superblock where
  "ex_sb = \<lparr> magic = 0x53465352, version = 1, block_size = 1024, total_blocks = 40,
     total_inodes = 16, inode_bitmap_start = 1, inode_bitmap_blocks = 1,
     block_bitmap_start = 2, block_bitmap_blocks = 1, inode_table_start = 3,
     free_blocks = 9, free_inodes = 10, used_blocks = 23, used_inodes = 6,
     data_block_start = 8, data_block_count = 32, snapshot_count = 1,
     snapshot_list_block = 31, root_inode = 0 \<rparr>"

definition ex_alloc :: Allocator where
  "ex_alloc = \<lparr> superblock = ex_sb, loaded = True, inode_bitmap = [0x6F, 0],
     block_bitmap = [0xF7, 0xFF, 0xFF, 0], inode_bitmap_dirty = False,
     block_bitmap_dirty = False, superblock_dirty = False,
     block_refcount = [1, 2, 1, 0, 1, 1, 1, 1, 1, 1, 1, 1, 1, 1, 1, 1,
                       1, 1, 1, 1, 1, 1, 1, 1, 0, 0, 0, 0, 0, 0, 0, 0],
     refcount_enabled = True,
     stats = \<lparr> inode_allocs = 0, inode_frees = 0, block_allocs = 0, block_frees = 0,
               bitmap_reads = 0, bitmap_writes = 0 \<rparr> \<rparr>"

definition no_direct :: "BlockNo list" where
  "no_direct = replicate 12 INVALID_BLOCK"

definition ex_free_inode :: Inode where
  "ex_free_inode = \<lparr> itype = FREE, permissions = 0, flags = 0, isize = 0, link_count = 0,
     ref_count = 0, create_time = 0, modify_time = 0, access_time = 0,
     direct_blocks = no_direct, single_indirect = INVALID_BLOCK,
     double_indirect = INVALID_BLOCK, block_count = 0, checksum = 0 \<rparr>"

definition ex_dir_inode :: "BlockNo \<Rightarrow> u32 \<Rightarrow> u16 \<Rightarrow> Inode" where
  "ex_dir_inode b sz links = ex_free_inode \<lparr> itype := DIRECTORY, permissions := 7, isize := sz,
     link_count := links, ref_count := 1, direct_blocks := no_direct[0 := b], block_count := 1 \<rparr>"

definition ex_f_inode :: Inode where
  "ex_f_inode = ex_free_inode \<lparr> itype := REGULAR, permissions := 7, isize := 12,
     link_count := 1, ref_count := 1, direct_blocks := no_direct[0 := 9], block_count := 1 \<rparr>"

definition ex_g_inode :: Inode where
  "ex_g_inode = ex_free_inode \<lparr> itype := REGULAR, permissions := 7, isize := 275456,
     link_count := 1, ref_count := 1,
     direct_blocks := [12, 13, 14, 15, 16, 17, 18, 19, 20, 21, 22, 23],
     single_indirect := 24, double_indirect := 27, block_count := 18 \<rparr>"

definition ex_inodes :: "InodeId \<Rightarrow> Inode" where
  "ex_inodes = (\<lambda>_. ex_free_inode)
     (0 := ex_dir_inode 8 320 3, 1 := ex_f_inode, 2 := ex_dir_inode 10 128 2, 3 := ex_g_inode,
      5 := ex_dir_inode 30 320 3, 6 := ex_f_inode)"

definition pad_block :: "u8 list \<Rightarrow> u8 \<Rightarrow> block_data" where
  "pad_block bs fill = bs @ replicate (1024 - length bs) fill"

definition ex_root_block :: block_data where
  "ex_root_block = pad_block
     (DirEntry_init 0 ''.'' DIRECTORY @ DirEntry_init 0 ''..'' DIRECTORY
      @ DirEntry_init 1 ''f'' REGULAR @ DirEntry_init 2 ''d'' DIRECTORY
      @ DirEntry_init 3 ''g'' REGULAR) 0xFF"

definition ex_d_block :: block_data where
  "ex_d_block = pad_block (DirEntry_init 2 ''.'' DIRECTORY @ DirEntry_init 0 ''..'' DIRECTORY) 0xFF"

definition ex_snap_root_block :: block_data where
  "ex_snap_root_block = pad_block
     (DirEntry_init 5 ''.'' DIRECTORY @ DirEntry_init 5 ''..'' DIRECTORY
      @ DirEntry_init 6 ''f'' REGULAR) 0xFF"

definition ex_hello_block :: block_data where
  "ex_hello_block = pad_block (name_bytes ''Hello World!'') 0"

definition ex_snapshots :: "SnapshotInfo list" where
  "ex_snapshots = [\<lparr> sn_name = ''v1'', sn_create_time = 1700000000, sn_root_inode = 5,
                     sn_block_count = 1, sn_valid = True \<rparr>]"

definition ex_blocks :: "BlockNo \<Rightarrow> block_data" where
  "ex_blocks = (\<lambda>_. zero_block)
     (8 := ex_root_block, 9 := ex_hello_block, 10 := ex_d_block,
      24 := pad_block (enc32 25 @ enc32 26) 0xFF,
      27 := pad_block (enc32 28) 0xFF,
      28 := pad_block (enc32 29) 0xFF,
      30 := ex_snap_root_block,
      31 := snapshot_list_bytes ex_snapshots)"

definition ex_disk :: DiskImage where
  "ex_disk = \<lparr> is_open = True, dk_total_blocks = 40, file_blocks = ex_blocks,
     read_fault = (\<lambda>_. False), write_fault = (\<lambda>_. False), file_good = True \<rparr>"

definition ex_snapmgr :: SnapshotManager where
  "ex_snapmgr = \<lparr> snapshots = ex_snapshots, sm_snapshot_list_block = 31, sm_loaded = True,
     sm_dirty = False,
     sm_stats = \<lparr> total_snapshots = 1, cow_operations = 0, shared_blocks = 1,
                  total_snapshot_size = 0 \<rparr> \<rparr>"

definition ex_fs :: FileSystem where
  "ex_fs = \<lparr> alloc = ex_alloc, disk = ex_disk, inode_table = ex_inodes,
     snapmgr = ex_snapmgr, snap_wired = True \<rparr>"

text \<open>The same image with fifteen snapshots \<open>s\<close>, \<open>ss\<close>, \<open>sss\<close>, and so on, in the list.\<close>

definition ex_full_snapshots :: "SnapshotInfo list" where
  "ex_full_snapshots =
     map (\<lambda>i. \<lparr> sn_name = replicate (Suc i) CHR ''s'', sn_create_time = 1700000000,
                 sn_root_inode = 5, sn_block_count = 1, sn_valid = True \<rparr>) [0..<15]"

definition ex_full_fs :: FileSystem where
  "ex_full_fs = ex_fs \<lparr> snapmgr := ex_snapmgr \<lparr> snapshots := ex_full_snapshots \<rparr> \<rparr>"

text \<open>Stand-ins for the two callees of \<open>createSnapshot\<close>: a clone that finds no free inode, a
  sync that succeeds.\<close>

definition ex_clone :: clone_fn where
  "ex_clone v src = (v, 0, Inl E_NO_INODE)"

definition ex_sync :: sync_fn where
  "ex_sync v = (v, OK)"

text \<open>
  A cached disk over the same image. \<open>ex_cd_dirty\<close> holds block 9 overwritten with zeros and
  not yet written back, and block 8 as read. \<open>ex_cd_read\<close> is the empty cache after a read
  of block 9; \<open>ex_cd_stale\<close> is what it becomes when the cache is then disabled and block 9
  is written with zeros.
\<close>

definition ex_cache :: "CacheBlock list \<Rightarrow> LRUCache" where
  "ex_cache l = \<lparr> capacity = 16, lru_list = l, hits = 0, misses = 0, evictions = 0 \<rparr>"

definition ex_cd_empty :: CachedDisk where
  "ex_cd_empty = \<lparr> cd_disk = Some ex_disk, cache = ex_cache [], cache_enabled = True,
     write_through = False \<rparr>"

definition ex_cd_dirty :: CachedDisk where
  "ex_cd_dirty = ex_cd_empty \<lparr> cache := ex_cache
     [\<lparr> cb_block_no = 9, cb_data = zero_block, cb_dirty = True \<rparr>,
      \<lparr> cb_block_no = 8, cb_data = ex_root_block, cb_dirty = False \<rparr>] \<rparr>"

definition ex_cd_flushed :: CachedDisk where
  "ex_cd_flushed = ex_cd_empty
     \<lparr> cd_disk := Some (ex_disk \<lparr> file_blocks := ex_blocks (9 := zero_block) \<rparr>),
       cache := ex_cache
         [\<lparr> cb_block_no = 9, cb_data = zero_block, cb_dirty = False \<rparr>,
          \<lparr> cb_block_no = 8, cb_data = ex_root_block, cb_dirty = False \<rparr>] \<rparr>"

definition ex_cd_read :: CachedDisk where
  "ex_cd_read = ex_cd_empty \<lparr> cache := (ex_cache
     [\<lparr> cb_block_no = 9, cb_data = ex_hello_block, cb_dirty = False \<rparr>]) \<lparr> misses := 1 \<rparr> \<rparr>"

definition ex_cd_stale :: CachedDisk where
  "ex_cd_stale = ex_cd_read
     \<lparr> cd_disk := Some (ex_disk \<lparr> file_blocks := ex_blocks (9 := zero_block) \<rparr>),
       cache_enabled := False \<rparr>"

section \<open>Bitmap and word facts\<close>

lemma bit_clear_u8: "bit ((w::8 word) AND NOT (2 ^ k)) j \<longleftrightarrow> bit w j \<and> j \<noteq> k"
  by (auto simp: bit_simps dest: bit_imp_le_length)

lemma bitmap_get_clear_same:
  "unat tb \<le> 8 * length data \<Longrightarrow> \<not> bitmap_get (bitmap_clear data tb i) tb i"
  unfolding bitmap_get_def bitmap_clear_def
  by (auto simp: bit_clear_u8 not_le word_less_nat_alt word_le_nat_alt)

lemma unat_ucast_u8: "unat (ucast (w::8 word) :: 32 word) = unat w"
  by (simp add: unsigned_ucast_eq take_bit_nat_eq_self_iff unsigned_less[THEN less_trans])

lemma ucast_u8_less: "((ucast (v::8 word) :: 32 word) < ucast (w :: 8 word)) = (v < w)"
  by (simp add: word_less_nat_alt unat_ucast_u8)

lemma ucast_u8_gt1: "(1 < (ucast (w::8 word) :: 32 word)) = (1 < w)"
  using ucast_u8_less[of 1 w] by simp

lemma ucast_u8_eq1: "((ucast (w::8 word) :: 32 word) = 1) = (w = 1)"
  by (metis unat_ucast_u8 unat_1 word_unat_eq_iff)

lemma ucast_u8_pred: "w \<noteq> 0 \<Longrightarrow> (ucast (w - 1 :: 8 word) :: 32 word) = ucast w - 1"
proof -
  assume nz: "w \<noteq> 0"
  then have nz': "(ucast w :: 32 word) \<noteq> 0"
    by (metis unat_ucast_u8 unat_eq_zero)
  show ?thesis
    by (rule word_unat_eq_iff[THEN iffD2])
       (simp add: unat_ucast_u8 unat_minus_one nz nz')
qed

lemma isValidDataBlock_upd [simp]:
  "isValidDataBlock (a\<lparr>block_refcount := r\<rparr>) n = isValidDataBlock a n"
  "isValidDataBlock (a\<lparr>block_bitmap := b\<rparr>) n = isValidDataBlock a n"
  "isValidDataBlock (a\<lparr>block_bitmap_dirty := d\<rparr>) n = isValidDataBlock a n"
  "isValidDataBlock (bump_block_frees a) n = isValidDataBlock a n"
  "isValidDataBlock (updateBlockStats a k) n = isValidDataBlock a n"
  by (simp_all add: isValidDataBlock_def bump_block_frees_def updateBlockStats_def Let_def)

lemma absoluteToDataBlock_upd [simp]:
  "absoluteToDataBlock (a\<lparr>block_refcount := r\<rparr>) n = absoluteToDataBlock a n"
  "absoluteToDataBlock (a\<lparr>block_bitmap := b\<rparr>) n = absoluteToDataBlock a n"
  "absoluteToDataBlock (a\<lparr>block_bitmap_dirty := d\<rparr>) n = absoluteToDataBlock a n"
  "absoluteToDataBlock (bump_block_frees a) n = absoluteToDataBlock a n"
  "absoluteToDataBlock (updateBlockStats a k) n = absoluteToDataBlock a n"
  by (simp_all add: absoluteToDataBlock_def bump_block_frees_def updateBlockStats_def Let_def)

lemma freeBlock_shared:
  assumes "isBlockAllocated a n" "getBlockRef a n > 1"
  shows "freeBlock a n = (a\<lparr>block_refcount := (block_refcount a)[unat (absoluteToDataBlock a n) := block_refcount a ! unat (absoluteToDataBlock a n) - 1]\<rparr>, OK)"
  using assms
  by (auto simp: isBlockAllocated_def getBlockRef_def freeBlock_def Let_def ucast_u8_gt1 split: if_splits)

lemma freeBlock_last:
  assumes "isBlockAllocated a n" "\<not> getBlockRef a n > 1"
  shows "freeBlock a n =
     (bump_block_frees (updateBlockStats
        ((if refcount_enabled a \<and> unat (absoluteToDataBlock a n) < length (block_refcount a)
          then a\<lparr>block_refcount := (block_refcount a)[unat (absoluteToDataBlock a n) := 0]\<rparr>
          else a)
         \<lparr>block_bitmap := bitmap_clear (block_bitmap a) (data_block_count (superblock a))
                            (absoluteToDataBlock a n),
          block_bitmap_dirty := True\<rparr>) (-1)), OK)"
  using assms
  by (auto simp: isBlockAllocated_def getBlockRef_def freeBlock_def Let_def ucast_u8_gt1 split: if_splits)

lemma freeBlock_unallocated:
  "\<not> isBlockAllocated a n \<Longrightarrow> freeBlock a n = (a, E_INVALID_PARAM)"
  by (auto simp: isBlockAllocated_def freeBlock_def Let_def split: if_splits)

lemma bit_set_u8: "bit ((w::8 word) OR (2 ^ k)) j \<longleftrightarrow> bit w j \<or> (j = k \<and> k < 8)"
  by (auto simp: bit_simps dest: bit_imp_le_length)

lemma div_mod_neq: "(i::nat) \<noteq> k \<Longrightarrow> i div 8 = k div 8 \<Longrightarrow> i mod 8 \<noteq> k mod 8"
  by (metis div_mult_mod_eq)

lemma bitmap_get_set_same:
  "unat tb \<le> 8 * length data \<Longrightarrow> i < tb \<Longrightarrow> bitmap_get (bitmap_set data tb i) tb i"
  unfolding bitmap_get_def bitmap_set_def
  by (auto simp: bit_set_u8 not_le word_less_nat_alt word_le_nat_alt)

lemma bitmap_get_set_other:
  "i \<noteq> k \<Longrightarrow> bitmap_get (bitmap_set data tb i) tb k = bitmap_get data tb k"
proof -
  assume ne: "i \<noteq> k"
  then have une: "unat i \<noteq> unat k" by (simp add: word_unat_eq_iff)
  show ?thesis
  proof (cases "unat i div 8 = unat k div 8")
    case True
    with une have "unat i mod 8 \<noteq> unat k mod 8" by (rule div_mod_neq)
    then show ?thesis
      unfolding bitmap_get_def bitmap_set_def using True
      by (cases "unat k div 8 < length data") (auto simp: bit_set_u8 list_update_beyond)
  next
    case False
    then show ?thesis unfolding bitmap_get_def bitmap_set_def by auto
  qed
qed

lemma bitmap_get_clear_other:
  "i \<noteq> k \<Longrightarrow> bitmap_get (bitmap_clear data tb i) tb k = bitmap_get data tb k"
proof -
  assume ne: "i \<noteq> k"
  then have une: "unat i \<noteq> unat k" by (simp add: word_unat_eq_iff)
  show ?thesis
  proof (cases "unat i div 8 = unat k div 8")
    case True
    with une have "unat i mod 8 \<noteq> unat k mod 8" by (rule div_mod_neq)
    then show ?thesis
      unfolding bitmap_get_def bitmap_clear_def using True
      by (cases "unat k div 8 < length data") (auto simp: bit_clear_u8 list_update_beyond)
  next
    case False
    then show ?thesis unfolding bitmap_get_def bitmap_clear_def by auto
  qed
qed

lemma valid_range_no_wrap:
  assumes "isValidDataBlock a b"
  shows "unat (data_block_start (superblock a)) + unat (data_block_count (superblock a)) < 2 ^ 32"
proof -
  let ?s = "data_block_start (superblock a)" and ?c = "data_block_count (superblock a)"
  from assms have "?s < ?s + ?c" unfolding isValidDataBlock_def by auto
  then have "?s \<le> ?s + ?c" by simp
  then show ?thesis by (simp add: no_olen_add_nat)
qed

lemma valid_data_index:
  assumes nw: "unat (data_block_start (superblock a)) + unat (data_block_count (superblock a)) < 2 ^ 32"
    and j: "j < unat (data_block_count (superblock a))"
  shows "isValidDataBlock a (data_block_start (superblock a) + of_nat j)"
    and "absoluteToDataBlock a (data_block_start (superblock a) + of_nat j) = of_nat j"
    and "unat (of_nat j :: 32 word) = j"
    and "(of_nat j :: 32 word) < data_block_count (superblock a)"
proof -
  let ?s = "data_block_start (superblock a)" and ?c = "data_block_count (superblock a)"
  have jl: "j < 2 ^ 32" using j unsigned_less[of ?c, where 'a=nat] by simp
  then show uj: "unat (of_nat j :: 32 word) = j" by (simp add: unat_of_nat)
  have usj: "unat (?s + of_nat j) = unat ?s + j"
  proof -
    have "unat ?s + unat (of_nat j :: 32 word) < 2 ^ LENGTH(32)" using nw j uj by simp
    then have "unat (?s + of_nat j) = unat ?s + unat (of_nat j :: 32 word)"
      by (rule unat_add_lem[THEN iffD1])
    then show ?thesis using uj by simp
  qed
  have "unat ?s + unat ?c < 2 ^ LENGTH(32)" using nw by simp
  then have usc: "unat (?s + ?c) = unat ?s + unat ?c" by (rule unat_add_lem[THEN iffD1])
  show "isValidDataBlock a (?s + of_nat j)"
    unfolding isValidDataBlock_def using j by (simp add: word_le_nat_alt word_less_nat_alt usj usc)
  show "absoluteToDataBlock a (?s + of_nat j) = of_nat j"
    by (simp add: absoluteToDataBlock_def)
  show "(of_nat j :: 32 word) < ?c" using j uj by (simp add: word_less_nat_alt)
qed

lemma first_free_from_nonneg:
  "0 \<le> first_free_from data tb i \<Longrightarrow>
   \<exists>j. first_free_from data tb i = int j \<and> i \<le> j \<and> j < unat tb \<and>
       \<not> bitmap_get data tb (of_nat j)"
proof (induction data tb i rule: first_free_from.induct)
  case (1 data tb i)
  note unf = first_free_from.simps[of data tb i]
  show ?case
  proof (cases "i < unat tb")
    case False
    with "1.prems" show ?thesis by (simp add: unf)
  next
    case lt: True
    show ?thesis
    proof (cases "bitmap_get data tb (of_nat i)")
      case True
      with lt "1.prems" have "0 \<le> first_free_from data tb (Suc i)" by (simp add: unf)
      from "1.IH"[OF lt _ this] True obtain j where
        "first_free_from data tb (Suc i) = int j" "Suc i \<le> j" "j < unat tb"
        "\<not> bitmap_get data tb (of_nat j)" by auto
      with lt True show ?thesis by (intro exI[of _ j]) (simp add: unf)
    next
      case False
      have ilt: "i < 2 ^ 32" using lt unsigned_less[of tb, where 'a=nat] by simp
      from False lt "1.prems" have nn: "0 \<le> to_int32 i" by (simp add: unf)
      have "to_int32 i = int i"
      proof (cases "i < 2 ^ 31")
        case True then show ?thesis by (simp add: to_int32_def)
      next
        case False
        then have "to_int32 i = int i - 2 ^ 32" by (simp add: to_int32_def)
        moreover from ilt have "int i < 4294967296" by simp
        ultimately show ?thesis using nn by simp
      qed
      then show ?thesis using lt False by (intro exI[of _ i]) (simp add: unf)
    qed
  qed
qed

section \<open>Allocator: freeing a block\<close>

text \<open>
  Claim C5. For an allocated data block \<open>n\<close>, \<open>freeBlock\<close> returns \<open>OK\<close>; when the reference
  count of \<open>n\<close> exceeds 1 it only lowers the count by one (the bitmap and the superblock
  are as before and \<open>n\<close> stays allocated); when the count is 1 it sets the count to 0,
  clears the bitmap bit of \<open>n\<close>, lowers \<open>used_blocks\<close> by one and raises \<open>free_blocks\<close> by
  one. For a block that is not allocated it fails with \<open>E_INVALID_PARAM\<close> and changes nothing.
\<close>

theorem freeBlock_contract:
  assumes cov: "bitmap_covers a"
  shows "(isBlockAllocated a n \<longrightarrow>
            snd (freeBlock a n) = OK \<and>
            (1 < getBlockRef a n \<longrightarrow>
               getBlockRef (fst (freeBlock a n)) n = getBlockRef a n - 1 \<and>
               isBlockAllocated (fst (freeBlock a n)) n \<and>
               block_bitmap (fst (freeBlock a n)) = block_bitmap a \<and>
               superblock (fst (freeBlock a n)) = superblock a) \<and>
            (getBlockRef a n = 1 \<longrightarrow>
               getBlockRef (fst (freeBlock a n)) n = 0 \<and>
               \<not> isBlockAllocated (fst (freeBlock a n)) n \<and>
               used_blocks (superblock (fst (freeBlock a n))) = used_blocks (superblock a) - 1 \<and>
               free_blocks (superblock (fst (freeBlock a n))) = free_blocks (superblock a) + 1))
       \<and> (\<not> isBlockAllocated a n \<longrightarrow> freeBlock a n = (a, E_INVALID_PARAM))"
proof (intro conjI impI)
  assume al: "isBlockAllocated a n"
  show "snd (freeBlock a n) = OK"
    using al by (cases "1 < getBlockRef a n") (simp_all add: freeBlock_shared freeBlock_last)
next
  assume al: "isBlockAllocated a n" and sh: "1 < getBlockRef a n"
  note fb = freeBlock_shared[OF al sh]
  from sh have nz: "block_refcount a ! unat (absoluteToDataBlock a n) \<noteq> 0"
    and inr: "unat (absoluteToDataBlock a n) < length (block_refcount a)"
    and en: "loaded a" "refcount_enabled a" "isValidDataBlock a n"
    by (auto simp: getBlockRef_def Let_def ucast_u8_gt1 split: if_splits)
  show "getBlockRef (fst (freeBlock a n)) n = getBlockRef a n - 1"
    using nz inr en by (simp add: fb getBlockRef_def Let_def ucast_u8_pred)
  show "isBlockAllocated (fst (freeBlock a n)) n"
    using al by (auto simp: fb isBlockAllocated_def split: if_splits)
  show "block_bitmap (fst (freeBlock a n)) = block_bitmap a" by (simp add: fb)
  show "superblock (fst (freeBlock a n)) = superblock a" by (simp add: fb)
next
  assume al: "isBlockAllocated a n" and one: "getBlockRef a n = 1"
  then have "\<not> 1 < getBlockRef a n" by simp
  note fb = freeBlock_last[OF al this]
  from one have inr: "unat (absoluteToDataBlock a n) < length (block_refcount a)"
    and en: "loaded a" "refcount_enabled a" "isValidDataBlock a n"
    by (auto simp: getBlockRef_def Let_def split: if_splits)
  show "getBlockRef (fst (freeBlock a n)) n = 0"
    using inr en
    by (simp add: fb getBlockRef_def Let_def bump_block_frees_def updateBlockStats_def
        isValidDataBlock_def absoluteToDataBlock_def)
  show "\<not> isBlockAllocated (fst (freeBlock a n)) n"
    using cov inr en
    by (simp add: fb isBlockAllocated_def bitmap_covers_def bump_block_frees_def
        updateBlockStats_def Let_def bitmap_get_clear_same isValidDataBlock_def
        absoluteToDataBlock_def)
  show "used_blocks (superblock (fst (freeBlock a n))) = used_blocks (superblock a) - 1"
    using inr en by (simp add: fb bump_block_frees_def updateBlockStats_def Let_def)
  show "free_blocks (superblock (fst (freeBlock a n))) = free_blocks (superblock a) + 1"
    using inr en by (simp add: fb bump_block_frees_def updateBlockStats_def Let_def)
next
  assume "\<not> isBlockAllocated a n"
  then show "freeBlock a n = (a, E_INVALID_PARAM)" by (rule freeBlock_unallocated)
qed

lemma ex_alloc_vals:
  "bitmap_covers ex_alloc"
  "isBlockAllocated ex_alloc 9" "getBlockRef ex_alloc 9 = 2"
  "isBlockAllocated ex_alloc 8" "getBlockRef ex_alloc 8 = 1"
  "\<not> isBlockAllocated ex_alloc 11"
  by (simp_all add: bitmap_covers_def ex_alloc_def ex_sb_def isBlockAllocated_def getBlockRef_def
      isValidDataBlock_def absoluteToDataBlock_def bitmap_get_def Let_def
      word_le_nat_alt word_less_nat_alt)

theorem freeBlock_contract_witness:
  "bitmap_covers ex_alloc \<and>
   isBlockAllocated ex_alloc 9 \<and> 1 < getBlockRef ex_alloc 9 \<and>
   snd (freeBlock ex_alloc 9) = OK \<and>
   getBlockRef (fst (freeBlock ex_alloc 9)) 9 = 1 \<and>
   isBlockAllocated (fst (freeBlock ex_alloc 9)) 9 \<and>
   superblock (fst (freeBlock ex_alloc 9)) = superblock ex_alloc \<and>
   isBlockAllocated ex_alloc 8 \<and> getBlockRef ex_alloc 8 = 1 \<and>
   snd (freeBlock ex_alloc 8) = OK \<and>
   getBlockRef (fst (freeBlock ex_alloc 8)) 8 = 0 \<and>
   \<not> isBlockAllocated (fst (freeBlock ex_alloc 8)) 8 \<and>
   used_blocks (superblock (fst (freeBlock ex_alloc 8))) = 22 \<and>
   \<not> isBlockAllocated ex_alloc 11 \<and>
   freeBlock ex_alloc 11 = (ex_alloc, E_INVALID_PARAM)"
  using freeBlock_contract[of ex_alloc 9] freeBlock_contract[of ex_alloc 8]
        freeBlock_contract[of ex_alloc 11] ex_alloc_vals
  by (simp add: ex_alloc_def ex_sb_def)

section \<open>Copy on write\<close>

lemma allocBlock_Inr:
  assumes ok: "allocBlock s = (s', Inr nb)"
  shows "\<exists>j. j < unat (data_block_count (superblock (alloc s))) \<and>
             \<not> bitmap_get (block_bitmap (alloc s)) (data_block_count (superblock (alloc s))) (of_nat j) \<and>
             nb = data_block_start (superblock (alloc s)) + of_nat j \<and>
             loaded (alloc s) \<and>
             disk_writeBlock (disk s) nb zero_block = (disk s', OK) \<and>
             alloc s' = bump_block_allocs (updateBlockStats
               ((if refcount_enabled (alloc s) \<and> j < length (block_refcount (alloc s))
                 then (\<lambda>a. a\<lparr>block_refcount := (block_refcount (alloc s))[j := 1]\<rparr>)
                 else (\<lambda>a. a))
                ((alloc s)\<lparr>block_bitmap := bitmap_set (block_bitmap (alloc s))
                    (data_block_count (superblock (alloc s))) (of_nat j),
                 block_bitmap_dirty := True\<rparr>)) 1) \<and>
             inode_table s' = inode_table s \<and> snapmgr s' = snapmgr s \<and> snap_wired s' = snap_wired s"
proof -
  let ?a = "alloc s" and ?t = "data_block_count (superblock (alloc s))"
  from ok have ld: "loaded ?a" and nn: "0 \<le> findFirstFree (block_bitmap ?a) ?t"
    by (auto simp: allocBlock_def Let_def split: if_splits prod.splits)
  from first_free_from_nonneg[OF nn[unfolded findFirstFree_def]] obtain j where
    j: "findFirstFree (block_bitmap ?a) ?t = int j" "j < unat ?t"
       "\<not> bitmap_get (block_bitmap ?a) ?t (of_nat j)"
    by (auto simp: findFirstFree_def)
  show ?thesis
    using ok ld j
    by (intro exI[of _ j])
       (auto simp: allocBlock_def Let_def dataBlockToAbsolute_def split: if_splits prod.splits)
qed

lemma u8_pred_nonzero: "(1::8 word) < r \<Longrightarrow> r - 1 \<noteq> 0"
  by (metis diff_eq_eq add_0 less_irrefl)

lemma decBlockRef_shared:
  assumes "1 < getBlockRef a b"
  shows "decBlockRef a b =
    (a\<lparr>block_refcount := (block_refcount a)[unat (absoluteToDataBlock a b) :=
           block_refcount a ! unat (absoluteToDataBlock a b) - 1]\<rparr>,
     Inr (ucast (block_refcount a ! unat (absoluteToDataBlock a b) - 1)))"
proof -
  from assms have en: "loaded a" "refcount_enabled a" "isValidDataBlock a b"
    and inr: "unat (absoluteToDataBlock a b) < length (block_refcount a)"
    and gt: "1 < block_refcount a ! unat (absoluteToDataBlock a b)"
    by (auto simp: getBlockRef_def Let_def ucast_u8_gt1 split: if_splits)
  from gt have nz: "block_refcount a ! unat (absoluteToDataBlock a b) \<noteq> 0" by auto
  show ?thesis
    using en inr nz u8_pred_nonzero[OF gt]
    by (simp add: decBlockRef_def Let_def)
qed

text \<open>The allocator after a successful allocBlock, seen through its observers.\<close>

lemma allocBlock_effects:
  assumes ok: "allocBlock s = (s', Inr nb)"
    and vb: "isBlockAllocated (alloc s) b"
  shows "nb \<noteq> b"
    and "\<not> isBlockAllocated (alloc s) nb"
    and "bitmap_covers (alloc s) \<Longrightarrow> isBlockAllocated (alloc s') nb"
    and "isBlockAllocated (alloc s') b"
    and "getBlockRef (alloc s') b = getBlockRef (alloc s) b"
    and "disk_writeBlock (disk s) nb zero_block = (disk s', OK)"
    and "snapmgr s' = snapmgr s" and "inode_table s' = inode_table s" and "snap_wired s' = snap_wired s"
proof -
  let ?a = "alloc s"
  let ?st = "data_block_start (superblock ?a)" and ?t = "data_block_count (superblock ?a)"
  from allocBlock_Inr[OF ok] obtain j where
    j: "j < unat ?t" and clr: "\<not> bitmap_get (block_bitmap ?a) ?t (of_nat j)"
    and nb: "nb = ?st + of_nat j" and ld: "loaded ?a"
    and wr: "disk_writeBlock (disk s) nb zero_block = (disk s', OK)"
    and a': "alloc s' = bump_block_allocs (updateBlockStats
               ((if refcount_enabled ?a \<and> j < length (block_refcount ?a)
                 then (\<lambda>a. a\<lparr>block_refcount := (block_refcount ?a)[j := 1]\<rparr>)
                 else (\<lambda>a. a))
                (?a\<lparr>block_bitmap := bitmap_set (block_bitmap ?a) ?t (of_nat j),
                 block_bitmap_dirty := True\<rparr>)) 1)"
    and rest: "inode_table s' = inode_table s" "snapmgr s' = snapmgr s" "snap_wired s' = snap_wired s"
    by blast
  from vb have valb: "isValidDataBlock ?a b"
    and bitb: "bitmap_get (block_bitmap ?a) ?t (absoluteToDataBlock ?a b)"
    by (auto simp: isBlockAllocated_def split: if_splits)
  note nw = valid_range_no_wrap[OF valb]
  note vj = valid_data_index[OF nw j]
  have idx_nb: "absoluteToDataBlock ?a nb = of_nat j" using vj(2) nb by simp
  show ne: "nb \<noteq> b" using bitb clr idx_nb by auto
  then have idx_ne: "absoluteToDataBlock ?a b \<noteq> of_nat j"
    using nb by (auto simp: absoluteToDataBlock_def diff_eq_eq add.commute)
  then have uidx_ne: "unat (absoluteToDataBlock ?a b) \<noteq> j"
    using vj(3) by auto
  show "\<not> isBlockAllocated ?a nb" using clr idx_nb by (simp add: isBlockAllocated_def)
  have geo: "loaded (alloc s')" "superblock (alloc s') = (superblock ?a)\<lparr>used_blocks := used_blocks (superblock ?a) + 1, free_blocks := free_blocks (superblock ?a) - 1\<rparr>"
    "block_bitmap (alloc s') = bitmap_set (block_bitmap ?a) ?t (of_nat j)"
    "refcount_enabled (alloc s') = refcount_enabled ?a"
    using ld by (simp_all add: a' bump_block_allocs_def updateBlockStats_def Let_def)
  have val': "\<And>k. isValidDataBlock (alloc s') k = isValidDataBlock ?a k"
    and idx': "\<And>k. absoluteToDataBlock (alloc s') k = absoluteToDataBlock ?a k"
    by (simp_all add: isValidDataBlock_def absoluteToDataBlock_def geo)
  show "isBlockAllocated (alloc s') nb" if cov: "bitmap_covers ?a"
    using cov vj nb idx_nb
    by (simp add: isBlockAllocated_def val' idx' geo bitmap_covers_def bitmap_get_set_same)
  show "isBlockAllocated (alloc s') b"
    using valb bitb idx_ne
    by (simp add: isBlockAllocated_def val' idx' geo bitmap_get_set_other[OF idx_ne[symmetric]])
  have rc: "block_refcount (alloc s') =
      (if refcount_enabled ?a \<and> j < length (block_refcount ?a)
       then (block_refcount ?a)[j := 1] else block_refcount ?a)"
    by (simp add: a' bump_block_allocs_def updateBlockStats_def Let_def)
  show "getBlockRef (alloc s') b = getBlockRef ?a b"
    using uidx_ne ld by (simp add: getBlockRef_def val' idx' geo rc Let_def)
  show "disk_writeBlock (disk s) nb zero_block = (disk s', OK)" by (rule wr)
  show "snapmgr s' = snapmgr s" "inode_table s' = inode_table s" "snap_wired s' = snap_wired s"
    by (rule rest)+
qed

lemma performCOW_Inr:
  assumes need: "needsCOW s b" and res: "performCOW s b = (s', Inr nb)"
  shows "\<exists>s1 buffer. allocBlock s = (s1, Inr nb) \<and> readBlockInternal s1 b = Inr buffer \<and>
           disk_writeBlock (disk s1) nb buffer = (disk s', OK) \<and>
           alloc s' = fst (decBlockRef (alloc s1) b)"
  using need res
  by (auto simp: performCOW_def writeBlockInternal_def split: prod.splits sum.splits if_splits)

lemma disk_writeBlock_OK:
  "disk_writeBlock d n buf = (d', OK) \<Longrightarrow>
     d' = d\<lparr>file_blocks := (file_blocks d)(n := buf)\<rparr> \<and> is_open d \<and> validateBlockNo d n
     \<and> \<not> write_fault d n"
  by (auto simp: disk_writeBlock_def split: if_splits)

lemma disk_readBlock_Inr:
  "disk_readBlock d n = Inr buf \<Longrightarrow>
     buf = file_blocks d n \<and> is_open d \<and> validateBlockNo d n \<and> \<not> read_fault d n"
  by (auto simp: disk_readBlock_def split: if_splits)

text \<open>
  Claim C4. \<open>needsCOW b\<close> holds exactly when the snapshot list is not empty and the
  reference count of \<open>b\<close> exceeds 1. When it holds for an allocated block \<open>b\<close> and
  \<open>performCOW b\<close> returns a block \<open>nb\<close>, then \<open>nb\<close> is a data block that was free before and
  is allocated now, it holds the contents of \<open>b\<close>, the contents of \<open>b\<close> are unchanged and
  its reference count is one less. \<open>performCOW\<close> does return the first free block whenever
  one exists and the disk accepts the read of \<open>b\<close> and the writes of the new block.
\<close>

theorem performCOW_contract:
  "(needsCOW s b \<longleftrightarrow> snapshots (snapmgr s) \<noteq> [] \<and> 1 < getBlockRef (alloc s) b) \<and>
   (needsCOW s b \<and> bitmap_covers (alloc s) \<and> isBlockAllocated (alloc s) b \<and>
    performCOW s b = (s', Inr nb) \<longrightarrow>
      nb \<noteq> b \<and> \<not> isBlockAllocated (alloc s) nb \<and> isBlockAllocated (alloc s') nb \<and>
      readBlockInternal s b = Inr (file_blocks (disk s) b) \<and>
      file_blocks (disk s') nb = file_blocks (disk s) b \<and>
      file_blocks (disk s') b = file_blocks (disk s) b \<and>
      getBlockRef (alloc s') b = getBlockRef (alloc s) b - 1 \<and>
      isBlockAllocated (alloc s') b) \<and>
   (needsCOW s b \<and> free_blocks (superblock (alloc s)) \<noteq> 0 \<and>
    0 \<le> findFirstFree (block_bitmap (alloc s)) (data_block_count (superblock (alloc s))) \<and>
    nb = dataBlockToAbsolute (alloc s)
           (word_of_int (findFirstFree (block_bitmap (alloc s)) (data_block_count (superblock (alloc s))))) \<and>
    is_open (disk s) \<and> validateBlockNo (disk s) nb \<and> \<not> write_fault (disk s) nb \<and>
    validateBlockNo (disk s) b \<and> \<not> read_fault (disk s) b \<longrightarrow>
      snd (performCOW s b) = Inr nb)"
proof (intro conjI impI)
  show "needsCOW s b \<longleftrightarrow> snapshots (snapmgr s) \<noteq> [] \<and> 1 < getBlockRef (alloc s) b"
    by (simp add: needsCOW_def)
next
  assume "needsCOW s b \<and> bitmap_covers (alloc s) \<and> isBlockAllocated (alloc s) b \<and>
    performCOW s b = (s', Inr nb)"
  then have need: "needsCOW s b" and cov: "bitmap_covers (alloc s)"
    and al: "isBlockAllocated (alloc s) b" and res: "performCOW s b = (s', Inr nb)" by auto
  from performCOW_Inr[OF need res] obtain s1 buffer where
    ab: "allocBlock s = (s1, Inr nb)" and rd: "readBlockInternal s1 b = Inr buffer"
    and wr: "disk_writeBlock (disk s1) nb buffer = (disk s', OK)"
    and a': "alloc s' = fst (decBlockRef (alloc s1) b)" by blast
  note eff = allocBlock_effects[OF ab al]
  from need have gt: "1 < getBlockRef (alloc s) b" by (simp add: needsCOW_def split: if_splits)
  then have gt1: "1 < getBlockRef (alloc s1) b" using eff(5) by simp
  note dec = decBlockRef_shared[OF gt1]
  note d1 = disk_writeBlock_OK[OF eff(6)]
  note d2 = disk_writeBlock_OK[OF wr]
  note r1 = disk_readBlock_Inr[OF rd[unfolded readBlockInternal_def]]
  have buf: "buffer = file_blocks (disk s) b" using r1 d1 eff(1) by simp
  show ne: "nb \<noteq> b" by (rule eff(1))
  show "\<not> isBlockAllocated (alloc s) nb" by (rule eff(2))
  have en1: "loaded (alloc s1)" "refcount_enabled (alloc s1)" "isValidDataBlock (alloc s1) b"
    and inr1: "unat (absoluteToDataBlock (alloc s1) b) < length (block_refcount (alloc s1))"
    using gt1 by (auto simp: getBlockRef_def Let_def split: if_splits)
  have val': "\<And>k. isValidDataBlock (alloc s') k = isValidDataBlock (alloc s1) k"
    and idx': "\<And>k. absoluteToDataBlock (alloc s') k = absoluteToDataBlock (alloc s1) k"
    by (simp_all add: a' dec isValidDataBlock_def absoluteToDataBlock_def)
  have alloc_same: "\<And>k. isBlockAllocated (alloc s') k = isBlockAllocated (alloc s1) k"
    by (simp add: isBlockAllocated_def val' idx') (simp add: a' dec)
  show "isBlockAllocated (alloc s') nb" using eff(3)[OF cov] by (simp add: alloc_same)
  show "isBlockAllocated (alloc s') b" using eff(4) by (simp add: alloc_same)
  show "readBlockInternal s b = Inr (file_blocks (disk s) b)"
    using r1 d1 by (simp add: readBlockInternal_def disk_readBlock_def validateBlockNo_def)
  show "file_blocks (disk s') nb = file_blocks (disk s) b"
    using d2 buf by simp
  show "file_blocks (disk s') b = file_blocks (disk s) b"
    using d1 d2 ne by simp
  have "1 < block_refcount (alloc s1) ! unat (absoluteToDataBlock (alloc s1) b)"
    using gt1 by (auto simp: getBlockRef_def Let_def ucast_u8_gt1 split: if_splits)
  then have "block_refcount (alloc s1) ! unat (absoluteToDataBlock (alloc s1) b) \<noteq> 0"
    by auto
  note pr = ucast_u8_pred[OF this]
  have "getBlockRef (alloc s') b = getBlockRef (alloc s1) b - 1"
    using en1 inr1
    by (simp add: a' dec getBlockRef_def Let_def pr[unfolded absoluteToDataBlock_def]
        isValidDataBlock_def absoluteToDataBlock_def)
  then show "getBlockRef (alloc s') b = getBlockRef (alloc s) b - 1" using eff(5) by simp
next
  let ?nb = "dataBlockToAbsolute (alloc s)
     (word_of_int (findFirstFree (block_bitmap (alloc s)) (data_block_count (superblock (alloc s)))))"
  assume "needsCOW s b \<and> free_blocks (superblock (alloc s)) \<noteq> 0 \<and>
    0 \<le> findFirstFree (block_bitmap (alloc s)) (data_block_count (superblock (alloc s))) \<and>
    nb = ?nb \<and>
    is_open (disk s) \<and> validateBlockNo (disk s) nb \<and> \<not> write_fault (disk s) nb \<and>
    validateBlockNo (disk s) b \<and> \<not> read_fault (disk s) b"
  then have need: "needsCOW s b" and fb: "free_blocks (superblock (alloc s)) \<noteq> 0"
    and ff: "0 \<le> findFirstFree (block_bitmap (alloc s)) (data_block_count (superblock (alloc s)))"
    and nb: "nb = ?nb"
    and dk: "is_open (disk s)" "validateBlockNo (disk s) nb" "\<not> write_fault (disk s) nb"
            "validateBlockNo (disk s) b" "\<not> read_fault (disk s) b" by auto
  from need have ld: "loaded (alloc s)"
    by (auto simp: needsCOW_def getBlockRef_def split: if_splits)
  have ab: "snd (allocBlock s) = Inr nb"
    and dk1: "disk (fst (allocBlock s)) = (disk s)\<lparr>file_blocks := (file_blocks (disk s))(nb := zero_block)\<rparr>"
    using ld fb ff dk nb
    by (simp_all add: allocBlock_def Let_def disk_writeBlock_def not_less)
  obtain s1 where ab1: "allocBlock s = (s1, Inr nb)"
    and ds1: "disk s1 = (disk s)\<lparr>file_blocks := (file_blocks (disk s))(nb := zero_block)\<rparr>"
    using ab dk1 by (cases "allocBlock s") auto
  show "snd (performCOW s b) = Inr nb"
    using need dk
    by (simp add: performCOW_def ab1 ds1 readBlockInternal_def writeBlockInternal_def
        disk_readBlock_def disk_writeBlock_def validateBlockNo_def)
qed

lemma ex_first_free:
  "findFirstFree (block_bitmap (alloc ex_fs)) (data_block_count (superblock (alloc ex_fs))) = 3"
  by (simp add: findFirstFree_def ex_fs_def ex_alloc_def ex_sb_def first_free_from.simps bitmap_get_def
      to_int32_def word_le_nat_alt)

lemma ex_fs_cow_facts:
  "needsCOW ex_fs 9" "bitmap_covers (alloc ex_fs)" "isBlockAllocated (alloc ex_fs) 9"
  "free_blocks (superblock (alloc ex_fs)) \<noteq> 0"
  "dataBlockToAbsolute (alloc ex_fs) 3 = 11"
  "is_open (disk ex_fs)" "validateBlockNo (disk ex_fs) 11" "\<not> write_fault (disk ex_fs) 11"
  "validateBlockNo (disk ex_fs) 9" "\<not> read_fault (disk ex_fs) 9"
  "getBlockRef (alloc ex_fs) 9 = 2"
  by (simp_all add: needsCOW_def ex_fs_def ex_snapmgr_def ex_snapshots_def ex_alloc_def ex_sb_def
      ex_disk_def getBlockRef_def isValidDataBlock_def absoluteToDataBlock_def bitmap_covers_def
      isBlockAllocated_def bitmap_get_def dataBlockToAbsolute_def validateBlockNo_def Let_def
      word_le_nat_alt word_less_nat_alt)

theorem performCOW_contract_witness:
  "needsCOW ex_fs 9 \<and> bitmap_covers (alloc ex_fs) \<and> isBlockAllocated (alloc ex_fs) 9 \<and>
   snd (performCOW ex_fs 9) = Inr 11 \<and>
   \<not> isBlockAllocated (alloc ex_fs) 11 \<and>
   isBlockAllocated (alloc (fst (performCOW ex_fs 9))) 11 \<and>
   file_blocks (disk (fst (performCOW ex_fs 9))) 11 = ex_hello_block \<and>
   file_blocks (disk (fst (performCOW ex_fs 9))) 9 = ex_hello_block \<and>
   getBlockRef (alloc (fst (performCOW ex_fs 9))) 9 = 1"
proof -
  note inst = performCOW_contract[of ex_fs 9 "fst (performCOW ex_fs 9)" 11]
  have r: "snd (performCOW ex_fs 9) = Inr 11"
    using inst ex_fs_cow_facts ex_first_free by simp
  then have eq: "performCOW ex_fs 9 = (fst (performCOW ex_fs 9), Inr 11)"
    by (metis prod.collapse)
  have hb: "file_blocks (disk ex_fs) 9 = ex_hello_block"
    by (simp add: ex_fs_def ex_disk_def ex_blocks_def)
  show ?thesis
    using inst eq r ex_fs_cow_facts hb by simp
qed

section \<open>File block lookup\<close>

lemma range_single: "(12::32 word) \<le> k \<Longrightarrow> k < 268 \<Longrightarrow> \<not> k < 12 \<and> k - 12 < 256"
  by unat_arith

lemma range_double:
  "(268::32 word) \<le> k \<Longrightarrow> k < 268 + 65536 \<Longrightarrow>
     \<not> k < 12 \<and> \<not> k - 12 < 256 \<and> k - 12 - 256 < 65536 \<and> k - 12 - 256 = k - 268"
  by unat_arith

lemma range_beyond:
  "(268::32 word) + 65536 \<le> k \<Longrightarrow> \<not> k < 12 \<and> \<not> k - 12 < 256 \<and> \<not> k - 12 - 256 < 65536"
  by unat_arith

lemma l1_index_bound: "(x::32 word) < 65536 \<Longrightarrow> x div 256 < 256"
  by (simp add: word_less_nat_alt unat_div_distrib) 

lemma l2_index_bound: "(x::32 word) mod 256 < 256"
  by (simp add: word_less_nat_alt unat_mod_distrib)

lemma getIndirectBlock_ptr_at:
  "b \<noteq> INVALID_BLOCK \<Longrightarrow> i < 256 \<Longrightarrow> getIndirectBlock s b i = ptr_at s b (unat i)"
  by (auto simp: getIndirectBlock_def ptr_at_def PTRS_PER_BLOCK_def)

text \<open>
  Claim C1. \<open>getFileBlock inode k\<close> returns the \<open>k\<close>-th direct pointer for \<open>k < 12\<close>; the
  pointer in slot \<open>k - 12\<close> of the single-indirect block for \<open>12 \<le> k < 268\<close>; the pointer
  in slot \<open>(k - 268) mod 256\<close> of the block named by slot \<open>(k - 268) div 256\<close> of the
  double-indirect block for \<open>268 \<le> k < 268 + 65536\<close>; and \<open>E_FILE_TOO_LARGE\<close> from there
  on. Wherever the pointer to follow is \<open>INVALID_BLOCK\<close> the result is \<open>E_NOT_FOUND\<close>. (A
  failed read of an indirect block is returned as it is.)
\<close>

theorem getFileBlock_contract:
  "(k < 12 \<longrightarrow>
      getFileBlock s inode k =
        (if direct_blocks inode ! unat k = INVALID_BLOCK then Inl E_NOT_FOUND
         else Inr (direct_blocks inode ! unat k))) \<and>
   (12 \<le> k \<and> k < 268 \<longrightarrow>
      getFileBlock s inode k =
        (if single_indirect inode = INVALID_BLOCK then Inl E_NOT_FOUND
         else ptr_at s (single_indirect inode) (unat (k - 12)))) \<and>
   (268 \<le> k \<and> k < 268 + 65536 \<longrightarrow>
      getFileBlock s inode k =
        (if double_indirect inode = INVALID_BLOCK then Inl E_NOT_FOUND
         else case ptr_at s (double_indirect inode) (unat ((k - 268) div 256)) of
                Inl err \<Rightarrow> Inl err
              | Inr l1 \<Rightarrow> ptr_at s l1 (unat ((k - 268) mod 256)))) \<and>
   (268 + 65536 \<le> k \<longrightarrow> getFileBlock s inode k = Inl E_FILE_TOO_LARGE)"
proof (intro conjI impI)
  assume "k < 12"
  then show "getFileBlock s inode k =
        (if direct_blocks inode ! unat k = INVALID_BLOCK then Inl E_NOT_FOUND
         else Inr (direct_blocks inode ! unat k))"
    by (simp add: getFileBlock_def NUM_DIRECT_BLOCKS_def Let_def)
next
  assume "12 \<le> k \<and> k < 268"
  then have r: "\<not> k < 12" "k - 12 < 256" using range_single[of k] by auto
  show "getFileBlock s inode k =
        (if single_indirect inode = INVALID_BLOCK then Inl E_NOT_FOUND
         else ptr_at s (single_indirect inode) (unat (k - 12)))"
    using r
    by (simp add: getFileBlock_def NUM_DIRECT_BLOCKS_def PTRS_PER_BLOCK_def Let_def
        getIndirectBlock_ptr_at)
next
  assume "268 \<le> k \<and> k < 268 + 65536"
  then have r: "\<not> k < 12" "\<not> k - 12 < 256" "k - 12 - 256 < 65536" "k - 12 - 256 = k - 268"
    using range_double[of k] by auto
  from r(3) have i1: "(k - 268) div 256 < 256" unfolding r(4) by (rule l1_index_bound)
  have i2: "(k - 268) mod 256 < 256" by (rule l2_index_bound)
  have l1_valid: "\<And>l1. ptr_at s (double_indirect inode) (unat ((k - 268) div 256)) = Inr l1
      \<Longrightarrow> l1 \<noteq> INVALID_BLOCK"
    by (auto simp: ptr_at_def split: sum.splits if_splits)
  show "getFileBlock s inode k =
        (if double_indirect inode = INVALID_BLOCK then Inl E_NOT_FOUND
         else case ptr_at s (double_indirect inode) (unat ((k - 268) div 256)) of
                Inl err \<Rightarrow> Inl err
              | Inr l1 \<Rightarrow> ptr_at s l1 (unat ((k - 268) mod 256)))"
    using r i1 i2 l1_valid
    by (auto simp: getFileBlock_def NUM_DIRECT_BLOCKS_def PTRS_PER_BLOCK_def Let_def
        getIndirectBlock_ptr_at split: sum.splits)
next
  assume "268 + 65536 \<le> k"
  then have r: "\<not> k < 12" "\<not> k - 12 < 256" "\<not> k - 12 - 256 < 65536"
    using range_beyond[of k] by auto
  then show "getFileBlock s inode k = Inl E_FILE_TOO_LARGE"
    by (simp add: getFileBlock_def NUM_DIRECT_BLOCKS_def PTRS_PER_BLOCK_def Let_def)
qed

lemma enc32_vals:
  "enc32 25 = [25, 0, 0, 0]" "enc32 26 = [26, 0, 0, 0]" "enc32 28 = [28, 0, 0, 0]"
  "enc32 29 = [29, 0, 0, 0]"
  by (simp_all add: enc32_def)

lemma ex_reads:
  "readBlockInternal ex_fs 24 = Inr (pad_block (enc32 25 @ enc32 26) 0xFF)"
  "readBlockInternal ex_fs 27 = Inr (pad_block (enc32 28) 0xFF)"
  "readBlockInternal ex_fs 28 = Inr (pad_block (enc32 29) 0xFF)"
  by (simp_all add: readBlockInternal_def disk_readBlock_def ex_fs_def ex_disk_def ex_blocks_def
      validateBlockNo_def word_less_nat_alt)

lemma replicate4: "replicate 4 b = [b, b, b, b]"
  by (simp add: numeral_eq_Suc)

lemma le32_replicate: "4 \<le> n \<Longrightarrow> le32 (replicate n b) = le32 [b, b, b, b]"
proof -
  assume "4 \<le> n"
  then obtain m where "n = 4 + m" using le_Suc_ex by blast
  then have "replicate n b = [b, b, b, b] @ replicate m b"
    by (simp add: replicate_add replicate4)
  then show ?thesis by simp
qed

lemma ex_ptrs:
  "ptr_at ex_fs 24 (Suc 0) = Inr 26" "ptr_at ex_fs 24 2 = Inl E_NOT_FOUND"
  "ptr_at ex_fs 27 0 = Inr 28" "ptr_at ex_fs 28 0 = Inr 29"
  by (simp_all add: ptr_at_def ex_reads enc32_vals pad_block_def get_ptr_def INVALID_BLOCK_def
      le32_replicate)

theorem getFileBlock_contract_witness:
  "(0::32 word) < 12 \<and> getFileBlock ex_fs ex_g_inode 0 = Inr 12 \<and>
   getFileBlock ex_fs ex_f_inode 1 = Inl E_NOT_FOUND \<and>
   (12::32 word) \<le> 13 \<and> (13::32 word) < 268 \<and> getFileBlock ex_fs ex_g_inode 13 = Inr 26 \<and>
   getFileBlock ex_fs ex_g_inode 14 = Inl E_NOT_FOUND \<and>
   (268::32 word) \<le> 268 \<and> (268::32 word) < 268 + 65536 \<and>
   getFileBlock ex_fs ex_g_inode 268 = Inr 29 \<and>
   (268::32 word) + 65536 \<le> 65804 \<and> getFileBlock ex_fs ex_g_inode 65804 = Inl E_FILE_TOO_LARGE"
  using getFileBlock_contract[of 0 ex_fs ex_g_inode] getFileBlock_contract[of 1 ex_fs ex_f_inode]
    getFileBlock_contract[of 13 ex_fs ex_g_inode] getFileBlock_contract[of 14 ex_fs ex_g_inode]
    getFileBlock_contract[of 268 ex_fs ex_g_inode] getFileBlock_contract[of 65804 ex_fs ex_g_inode]
  by (simp add: ex_ptrs ex_g_inode_def ex_f_inode_def ex_free_inode_def no_direct_def
      INVALID_BLOCK_def word_le_nat_alt word_less_nat_alt)

section \<open>Reading and writing by path\<close>

lemma norm_f: "normalizePath ''/f'' = ''/f''" "normalizePath ''/g'' = ''/g''" "normalizePath ''/d'' = ''/d''"
  by (simp_all add: normalizePath_def strip_trailing_def)

lemma split_f: "splitPath ''/f'' = [''f'']" "splitPath ''/g'' = [''g'']" "splitPath ''/d'' = [''d'']"
  by (simp_all add: splitPath_def norm_f getline_tokens.simps split_step_def)

lemma ex_readInode:
  "readInode ex_fs 0 = Inr (ex_dir_inode 8 320 3)"
  "readInode ex_fs 1 = Inr ex_f_inode"
  "readInode ex_fs 2 = Inr (ex_dir_inode 10 128 2)"
  "readInode ex_fs 3 = Inr ex_g_inode"
  by (simp_all add: readInode_def ex_fs_def ex_alloc_def ex_sb_def ex_inodes_def
      readBlockInternal_def disk_readBlock_def ex_disk_def validateBlockNo_def getInodeBlock_def
      INODES_PER_BLOCK_def word_le_nat_alt word_less_nat_alt)

lemma ex_root_entries:
  "find_entry ex_root_block (name_bytes ''f'') [0..<DIRENTRIES_PER_BLOCK] = Some 1"
  "find_entry ex_root_block (name_bytes ''g'') [0..<DIRENTRIES_PER_BLOCK] = Some 3"
  "find_entry ex_root_block (name_bytes ''d'') [0..<DIRENTRIES_PER_BLOCK] = Some 2"
  by code_simp+

lemma ex_root_lookup:
  "lookupInternal ex_fs 0 ''f'' = Inr 1"
  "lookupInternal ex_fs 0 ''g'' = Inr 3"
  "lookupInternal ex_fs 0 ''d'' = Inr 2"
proof -
  have nb: "[0..<unat (dir_num_blocks (ex_dir_inode 8 320 3))] = [0]"
    by (simp add: dir_num_blocks_def ex_dir_inode_def BLOCK_SIZE_def Let_def)
  have gb: "getFileBlock ex_fs (ex_dir_inode 8 320 3) 0 = Inr 8"
    by (simp add: getFileBlock_def ex_dir_inode_def ex_free_inode_def no_direct_def
        NUM_DIRECT_BLOCKS_def INVALID_BLOCK_def Let_def)
  have rb: "readBlockInternal ex_fs 8 = Inr ex_root_block"
    by (simp add: readBlockInternal_def disk_readBlock_def ex_fs_def ex_disk_def ex_blocks_def
        validateBlockNo_def word_less_nat_alt)
  have dir: "isDirectory (ex_dir_inode 8 320 3)"
    by (simp add: isDirectory_def ex_dir_inode_def)
  show "lookupInternal ex_fs 0 ''f'' = Inr 1" "lookupInternal ex_fs 0 ''g'' = Inr 3"
    "lookupInternal ex_fs 0 ''d'' = Inr 2"
    by (simp_all add: lookupInternal_def ex_readInode dir nb gb rb ex_root_entries)
qed

lemma ex_resolve:
  "resolvePath ex_fs ''/f'' = Inr 1" "resolvePath ex_fs ''/g'' = Inr 3"
  "resolvePath ex_fs ''/d'' = Inr 2"
  by (simp_all add: resolvePath_def norm_f split_f ex_readInode ex_root_lookup isDirectory_def
      ex_dir_inode_def ROOT_INODE_def)

text \<open>
  Claim C10. A write of an empty buffer returns success with a count of 0 at every offset
  and leaves the whole state as it was, so the inode of the file keeps its size, its block
  pointers, its block count and its time stamps; by inode and by any path that resolves.
\<close>

theorem write_empty_data:
  "writeFileByInode s now inode_id [] offset = Some (s, Inr 0) \<and>
   (resolvePath s path = Inr inode_id \<longrightarrow> writeFile s now path [] offset = Some (s, Inr 0))"
  by (simp add: writeFileByInode_def writeFile_def)

theorem write_empty_data_witness:
  "resolvePath ex_fs ''/f'' = Inr 1 \<and>
   writeFile ex_fs 1700000100 ''/f'' [] 5000 = Some (ex_fs, Inr 0) \<and>
   writeFileByInode ex_fs 1700000100 1 [] 5000 = Some (ex_fs, Inr 0)"
  using write_empty_data[of ex_fs 1700000100 1 5000 "''/f''"] ex_resolve by simp

lemma maxBlocks_val: "maxBlocks = 65804"
  by (simp add: maxBlocks_def NUM_DIRECT_BLOCKS_def PTRS_PER_BLOCK_def)

lemma maxFileSize_val: "maxFileSize = 67383296"
  by (simp add: maxFileSize_def maxBlocks_val BLOCK_SIZE_def)

lemma unat_ucast_32_64: "unat (ucast (w::32 word) :: 64 word) = unat w"
  by (simp add: unsigned_ucast_eq take_bit_nat_eq_self_iff unsigned_less[THEN less_trans])

lemma too_large_iff: "((ucast (w::32 word) :: 64 word) > maxFileSize) = (67383296 < unat w)"
  by (simp add: maxFileSize_val word_less_nat_alt unat_ucast_32_64)

lemma getOrAlloc_beyond:
  assumes "(268::32 word) + 65536 \<le> bi"
  shows "getOrAllocFileBlock s inode inode_id bi = (s, inode, Inl E_FILE_TOO_LARGE)"
  using range_beyond[OF assms]
  by (simp add: getOrAllocFileBlock_def NUM_DIRECT_BLOCKS_def PTRS_PER_BLOCK_def Let_def)

lemma offset_block_beyond:
  assumes "67383296 \<le> unat (offset :: 32 word)"
  shows "(268::32 word) + 65536 \<le> offset div 1024"
proof -
  have "65804 \<le> unat offset div 1024" using assms by simp
  then show ?thesis by (simp add: word_le_nat_alt unat_div_distrib)
qed

lemma write_loop_first_beyond:
  assumes ne: "data \<noteq> []" and big: "67383296 \<le> unat (offset :: 32 word)"
  shows "write_loop s inode inode_id data offset 0 = Some (s, Inl E_FILE_TOO_LARGE)"
  using ne getOrAlloc_beyond[OF offset_block_beyond[OF big], of s inode inode_id]
  by (subst write_loop.simps) (simp add: BLOCK_SIZE_def Let_def)

text \<open>
  Claim C3, amended. The maximum file size is \<open>(12 + 256 + 65536) * 1024 = 67383296\<close> bytes.
  A write of a non-empty buffer to a regular file whose end offset exceeds it fails with
  \<open>E_FILE_TOO_LARGE\<close> and leaves the state as it was, provided the end offset fits in 32
  bits or the buffer is at most \<open>2 ^ 32 - 67383296\<close> bytes long.
\<close>

theorem write_past_maximum:
  "unat maxFileSize = (12 + 256 + 65536) * 1024 \<and> unat maxFileSize = 67383296 \<and>
   (data \<noteq> [] \<and> readInode s inode_id = Inr inode \<and> isRegularFile inode \<and>
    (unat offset + length data < 2 ^ 32 \<or> length data \<le> 2 ^ 32 - 67383296) \<and>
    67383296 < unat offset + length data \<longrightarrow>
      writeFileByInode s now inode_id data offset = Some (s, Inl E_FILE_TOO_LARGE) \<and>
      (resolvePath s path = Inr inode_id \<longrightarrow>
         writeFile s now path data offset = Some (s, Inl E_FILE_TOO_LARGE)))"
proof (intro conjI impI)
  show "unat maxFileSize = (12 + 256 + 65536) * 1024" "unat maxFileSize = 67383296"
    by (simp_all add: maxFileSize_val)
next
  assume h: "data \<noteq> [] \<and> readInode s inode_id = Inr inode \<and> isRegularFile inode \<and>
    (unat offset + length data < 2 ^ 32 \<or> length data \<le> 2 ^ 32 - 67383296) \<and>
    67383296 < unat offset + length data"
  then have ne: "data \<noteq> []" and ri: "readInode s inode_id = Inr inode"
    and reg: "isRegularFile inode"
    and sz: "unat offset + length data < 2 ^ 32 \<or> length data \<le> 2 ^ 32 - 67383296"
    and big: "67383296 < unat offset + length data" by auto
  let ?we = "offset + (of_nat (length data) :: 32 word)"
  have res: "writeFileByInode s now inode_id data offset = Some (s, Inl E_FILE_TOO_LARGE)"
  proof (cases "67383296 < unat ?we")
    case True
    then show ?thesis using ne ri reg
      by (simp add: writeFileByInode_def too_large_iff Let_def)
  next
    case False
    have ob: "67383296 \<le> unat offset"
    proof (rule ccontr)
      assume "\<not> 67383296 \<le> unat offset"
      then have small: "unat offset < 67383296" by simp
      have "unat offset + length data < 2 ^ 32"
        using sz small by auto
      then have "unat ?we = unat offset + length data"
        by (simp add: unat_word_ariths unat_of_nat)
      with False big show False by simp
    qed
    show ?thesis using ne ri reg False write_loop_first_beyond[OF ne ob]
      by (simp add: writeFileByInode_def too_large_iff Let_def)
  qed
  show "writeFileByInode s now inode_id data offset = Some (s, Inl E_FILE_TOO_LARGE)" by (rule res)
  show "writeFile s now path data offset = Some (s, Inl E_FILE_TOO_LARGE)"
    if "resolvePath s path = Inr inode_id"
    using that res by (simp add: writeFile_def)
qed

theorem write_past_maximum_witness:
  "[1 :: 8 word] \<noteq> [] \<and> readInode ex_fs 1 = Inr ex_f_inode \<and> isRegularFile ex_f_inode \<and>
   unat (67383296 :: 32 word) + length [1 :: 8 word] < 2 ^ 32 \<and>
   67383296 < unat (67383296 :: 32 word) + length [1 :: 8 word] \<and>
   resolvePath ex_fs ''/f'' = Inr 1 \<and>
   writeFileByInode ex_fs 1700000100 1 [1] 67383296 = Some (ex_fs, Inl E_FILE_TOO_LARGE) \<and>
   writeFile ex_fs 1700000100 ''/f'' [1] 67383296 = Some (ex_fs, Inl E_FILE_TOO_LARGE)"
  using write_past_maximum[of "[1]" ex_fs 1 ex_f_inode 67383296 1700000100 "''/f''"]
    ex_readInode ex_resolve
  by (simp add: isRegularFile_def ex_f_inode_def)

text \<open>
  The claim as stated fails: the product is not 67383808, and a write of an empty buffer
  past the maximum succeeds.
\<close>

theorem write_past_maximum_counterexample:
  "unat maxFileSize \<noteq> 67383808 \<and>
   67383808 < unat (70000000 :: 32 word) + length ([] :: 8 word list) \<and>
   writeFileByInode ex_fs 1700000100 1 [] 70000000 = Some (ex_fs, Inr 0)"
  by (simp add: maxFileSize_val writeFileByInode_def)

text \<open>
  Claim C9, amended. On a path that resolves to a directory inode \<open>readFile\<close> fails with
  \<open>E_IS_DIR\<close>, \<open>writeFile\<close> of a non-empty buffer fails with \<open>E_IS_DIR\<close>, \<open>writeFile\<close> of an
  empty buffer returns success with a count of 0, and none of them changes the state. On a
  regular file a read at an offset at or past the file size succeeds with no bytes.
\<close>

theorem directory_and_eof_access:
  "(resolvePath s path = Inr inode_id \<and> readInode s inode_id = Inr inode \<and> isDirectory inode \<longrightarrow>
      readFile s now path offset len = (s, Inl E_IS_DIR) \<and>
      (data \<noteq> [] \<longrightarrow> writeFile s now path data offset = Some (s, Inl E_IS_DIR)) \<and>
      writeFile s now path [] offset = Some (s, Inr 0)) \<and>
   (resolvePath s path = Inr inode_id \<and> readInode s inode_id = Inr inode \<and> isRegularFile inode \<and>
    isize inode \<le> offset \<longrightarrow>
      readFile s now path offset len = (s, Inr []))"
  by (auto simp: readFile_def writeFile_def readFileByInode_def writeFileByInode_def
      isDirectory_def isRegularFile_def)

theorem directory_and_eof_access_witness:
  "resolvePath ex_fs ''/d'' = Inr 2 \<and> readInode ex_fs 2 = Inr (ex_dir_inode 10 128 2) \<and>
   isDirectory (ex_dir_inode 10 128 2) \<and>
   readFile ex_fs 1700000100 ''/d'' 0 0 = (ex_fs, Inl E_IS_DIR) \<and>
   [1 :: 8 word] \<noteq> [] \<and>
   writeFile ex_fs 1700000100 ''/d'' [1] 0 = Some (ex_fs, Inl E_IS_DIR) \<and>
   resolvePath ex_fs ''/f'' = Inr 1 \<and> readInode ex_fs 1 = Inr ex_f_inode \<and>
   isRegularFile ex_f_inode \<and> isize ex_f_inode \<le> 12 \<and>
   readFile ex_fs 1700000100 ''/f'' 12 4 = (ex_fs, Inr [])"
  using directory_and_eof_access[of ex_fs "''/d''" 2 "ex_dir_inode 10 128 2" 1700000100 0 0 "[1]"]
    directory_and_eof_access[of ex_fs "''/f''" 1 ex_f_inode 1700000100 12 4 "[1]"]
    ex_readInode ex_resolve
  by (simp add: isRegularFile_def isDirectory_def ex_f_inode_def ex_dir_inode_def)

text \<open>
  The claim as stated fails: an empty write to a directory path is not refused.
\<close>

theorem directory_and_eof_access_counterexample:
  "resolvePath ex_fs ''/d'' = Inr 2 \<and> readInode ex_fs 2 = Inr (ex_dir_inode 10 128 2) \<and>
   isDirectory (ex_dir_inode 10 128 2) \<and>
   writeFile ex_fs 1700000100 ''/d'' [] 0 = Some (ex_fs, Inr 0) \<and>
   writeFile ex_fs 1700000100 ''/d'' [] 0 \<noteq> Some (ex_fs, Inl E_IS_DIR)"
  using ex_readInode ex_resolve
  by (simp add: writeFile_def writeFileByInode_def isDirectory_def ex_dir_inode_def)

section \<open>The snapshot limit\<close>

lemma allocBlock_snapmgr: "snapmgr (fst (allocBlock s)) = snapmgr s"
  by (simp add: allocBlock_def Let_def split: prod.splits)

lemma writeBlockInternal_snapmgr: "snapmgr (fst (writeBlockInternal s b buf)) = snapmgr s"
  by (simp add: writeBlockInternal_def split: prod.splits)

lemma saveSnapshotList_snapshots:
  "snapshots (snapmgr (fst (saveSnapshotList s))) = snapshots (snapmgr s)"
proof -
  have a: "snapshots (snapmgr (fst (allocSnapshotListBlock s))) = snapshots (snapmgr s)"
    using allocBlock_snapmgr[of s]
    by (auto simp: allocSnapshotListBlock_def split: prod.splits sum.splits)
  show ?thesis
    using a writeBlockInternal_snapmgr
    by (auto simp: saveSnapshotList_def split: prod.splits if_splits)
qed

lemma run_clone_snapshots:
  "snapshots (snapmgr (fst (run_clone c s src))) = snapshots (snapmgr s)"
  by (simp add: run_clone_def split: prod.splits)

lemma run_sync_snapmgr: "snapmgr (fst (run_sync f s)) = snapmgr s"
  by (simp add: run_sync_def split: prod.splits)

lemma createSnapshot_length:
  "length (snapshots (snapmgr (fst (createSnapshot c f s now name))))
     \<le> Suc (length (snapshots (snapmgr s)))"
proof -
  have step: "\<And>s2. length (snapshots (snapmgr
        (fst (case saveSnapshotList s2 of
                (s3, err) \<Rightarrow>
                  if err \<noteq> OK then (s3, err)
                  else case run_sync f s3 of
                         (s4, err) \<Rightarrow>
                           if err \<noteq> OK then (s4, err)
                           else (s4\<lparr>snapmgr := (snapmgr s4)\<lparr>sm_dirty := False\<rparr>\<rparr>, OK)))))
      = length (snapshots (snapmgr s2))"
  proof -
    fix s2
    obtain s3 e3 where s3: "saveSnapshotList s2 = (s3, e3)" by (cases "saveSnapshotList s2")
    obtain s4 e4 where s4: "run_sync f s3 = (s4, e4)" by (cases "run_sync f s3")
    have l3: "snapshots (snapmgr s3) = snapshots (snapmgr s2)"
      using saveSnapshotList_snapshots[of s2] s3 by simp
    have l4: "snapmgr s4 = snapmgr s3" using run_sync_snapmgr[of f s3] s4 by simp
    show "?thesis s2" by (simp add: s3 s4 l3 l4)
  qed
  obtain s1 r where s1: "run_clone c s (root_inode (superblock (alloc s))) = (s1, r)"
    by (cases "run_clone c s (root_inode (superblock (alloc s)))")
  have l1: "snapshots (snapmgr s1) = snapshots (snapmgr s)"
    using run_clone_snapshots[of c s "root_inode (superblock (alloc s))"] s1 by simp
  show ?thesis
    by (cases r) (simp_all add: createSnapshot_def s1 l1 step Let_def)
qed

text \<open>
  Claim C6. The bound is 15. With fifteen snapshots in the list, \<open>createSnapshot\<close> with a
  valid name (non-empty, at most 31 bytes) that no valid snapshot bears returns
  \<open>E_MAX_SNAPSHOTS\<close> and leaves the state as it was; and no call of \<open>createSnapshot\<close> takes
  a list of at most fifteen snapshots beyond fifteen.
\<close>

theorem snapshot_limit:
  "MAX_SNAPSHOTS = 15 \<and>
   (sm_loaded (snapmgr s) \<and> length (snapshots (snapmgr s)) = 15 \<and>
    name \<noteq> [] \<and> length name \<le> 31 \<and> findSnapshotIndex (snapmgr s) name < 0 \<longrightarrow>
      createSnapshot c f s now name = (s, E_MAX_SNAPSHOTS)) \<and>
   (length (snapshots (snapmgr s)) \<le> 15 \<longrightarrow>
      length (snapshots (snapmgr (fst (createSnapshot c f s now name)))) \<le> 15)"
proof (intro conjI impI)
  show "MAX_SNAPSHOTS = 15" by (simp add: MAX_SNAPSHOTS_def)
next
  assume "sm_loaded (snapmgr s) \<and> length (snapshots (snapmgr s)) = 15 \<and>
    name \<noteq> [] \<and> length name \<le> 31 \<and> findSnapshotIndex (snapmgr s) name < 0"
  then show "createSnapshot c f s now name = (s, E_MAX_SNAPSHOTS)"
    by (simp add: createSnapshot_def MAX_SNAPSHOTS_def MAX_SNAPSHOT_NAME_LEN_def)
next
  assume le: "length (snapshots (snapmgr s)) \<le> 15"
  show "length (snapshots (snapmgr (fst (createSnapshot c f s now name)))) \<le> 15"
  proof (cases "length (snapshots (snapmgr s)) = 15")
    case True
    then show ?thesis by (simp add: createSnapshot_def MAX_SNAPSHOTS_def)
  next
    case False
    with le have "Suc (length (snapshots (snapmgr s))) \<le> 15" by simp
    with createSnapshot_length[of c f s now name] show ?thesis by simp
  qed
qed

lemma ex_full_facts:
  "sm_loaded (snapmgr ex_full_fs)" "length (snapshots (snapmgr ex_full_fs)) = 15"
  "findSnapshotIndex (snapmgr ex_full_fs) ''overflow'' < 0"
  by (simp_all add: ex_full_fs_def ex_snapmgr_def ex_full_snapshots_def findSnapshotIndex_def
      upt_conv_Cons)

theorem snapshot_limit_witness:
  "sm_loaded (snapmgr ex_full_fs) \<and> length (snapshots (snapmgr ex_full_fs)) = 15 \<and>
   ''overflow'' \<noteq> [] \<and> length ''overflow'' \<le> 31 \<and>
   findSnapshotIndex (snapmgr ex_full_fs) ''overflow'' < 0 \<and>
   createSnapshot ex_clone ex_sync ex_full_fs 1700000100 ''overflow'' = (ex_full_fs, E_MAX_SNAPSHOTS) \<and>
   length (snapshots (snapmgr (fst (createSnapshot ex_clone ex_sync ex_full_fs 1700000100 ''overflow'')))) \<le> 15"
  using snapshot_limit[of ex_full_fs "''overflow''" ex_clone ex_sync 1700000100] ex_full_facts
  by simp

section \<open>Flushing the cache\<close>

lemma clear_first_map:
  "distinct (map cb_block_no l) \<Longrightarrow>
   clear_first n l = map (\<lambda>b. if cb_block_no b = n then b\<lparr>cb_dirty := False\<rparr> else b) l"
proof (induction l)
  case Nil
  then show ?case by simp
next
  case (Cons b l)
  show ?case
  proof (cases "cb_block_no b = n")
    case True
    with Cons.prems have "\<forall>x \<in> set l. cb_block_no x \<noteq> n" by (auto simp: image_iff)
    then have "map (\<lambda>b. if cb_block_no b = n then b\<lparr>cb_dirty := False\<rparr> else b) l = l"
      by (simp add: map_idI)
    with True show ?thesis by simp
  next
    case False
    with Cons show ?thesis by simp
  qed
qed

lemma clear_first_keys [simp]: "map cb_block_no (clear_first n l) = map cb_block_no l"
  by (induction l) auto

lemma clear_first_data [simp]: "map cb_data (clear_first n l) = map cb_data l"
  by (induction l) auto

lemma clear_keys_keys [simp]: "map cb_block_no (clear_keys K l) = map cb_block_no l"
  by (simp add: clear_keys_def comp_def)

lemma clear_first_clear_keys:
  assumes "distinct (map cb_block_no l)"
  shows "clear_first n (clear_keys K l) = clear_keys (insert n K) l"
proof -
  have "distinct (map cb_block_no (clear_keys K l))" using assms by simp
  then show ?thesis
    by (subst clear_first_map) (auto simp: clear_keys_def)
qed

lemma flush_loop_OK:
  assumes "flush_loop d c ws = (d', c', OK)"
    and "distinct (map cb_block_no l)"
    and "lru_list c = clear_keys K l"
  shows "lru_list c' = clear_keys (K \<union> fst ` set ws) l
       \<and> (\<forall>n. n \<notin> fst ` set ws \<longrightarrow> file_blocks d' n = file_blocks d n)
       \<and> (distinct (map fst ws) \<longrightarrow> (\<forall>(n, data) \<in> set ws. file_blocks d' n = data))
       \<and> is_open d' = is_open d \<and> file_good d' = file_good d"
  using assms
proof (induction ws arbitrary: d c K)
  case Nil
  then show ?case by simp
next
  case (Cons w ws)
  obtain n data where w: "w = (n, data)" by (cases w)
  from Cons.prems(1) w have wr: "disk_writeBlock d n data = (d\<lparr>file_blocks := (file_blocks d)(n := data)\<rparr>, OK)"
    and rest: "flush_loop (d\<lparr>file_blocks := (file_blocks d)(n := data)\<rparr>) (clearDirty c n) ws = (d', c', OK)"
    by (auto simp: disk_writeBlock_def split: prod.splits if_splits)
  have l1: "lru_list (clearDirty c n) = clear_keys (insert n K) l"
    using Cons.prems(2,3) by (simp add: clearDirty_def clear_first_clear_keys)
  note ih = Cons.IH[OF rest Cons.prems(2) l1]
  show ?case
  proof (intro conjI allI impI)
    show "lru_list c' = clear_keys (K \<union> fst ` set (w # ws)) l"
      using ih w by simp
    show "file_blocks d' m = file_blocks d m" if "m \<notin> fst ` set (w # ws)" for m
      using ih that w by auto
    show "\<forall>(n, data) \<in> set (w # ws). file_blocks d' n = data" if dist: "distinct (map fst (w # ws))"
    proof -
      from dist w have nin: "n \<notin> fst ` set ws" and dws: "distinct (map fst ws)" by auto
      from ih nin have "file_blocks d' n = data" by simp
      moreover from ih dws have "\<forall>(n, data) \<in> set ws. file_blocks d' n = data" by simp
      ultimately show ?thesis using w by simp
    qed
    show "is_open d' = is_open d" "file_good d' = file_good d" using ih by simp_all
  qed
qed

text \<open>
  Claim C7, amended. After a successful flush of a cache that holds each block number once,
  no entry is dirty, the block numbers and contents in the cache are as before, every block
  that was dirty is on disk with its cached content, and every block that agreed with the
  disk still does. So if the clean entries agreed with the disk before the flush, the disk
  content of every cached block equals the cached content after it.
\<close>

theorem flush_contract:
  "cd_disk cd = Some d \<and> distinct (map cb_block_no (lru_list (cache cd))) \<and>
   flush cd = (cd', OK) \<longrightarrow>
     (\<exists>d'. cd_disk cd' = Some d' \<and>
        (\<forall>b \<in> set (lru_list (cache cd')). \<not> cb_dirty b) \<and>
        map cb_block_no (lru_list (cache cd')) = map cb_block_no (lru_list (cache cd)) \<and>
        map cb_data (lru_list (cache cd')) = map cb_data (lru_list (cache cd)) \<and>
        (\<forall>b \<in> set (lru_list (cache cd)).
           cb_dirty b \<or> file_blocks d (cb_block_no b) = cb_data b
             \<longrightarrow> file_blocks d' (cb_block_no b) = cb_data b) \<and>
        ((\<forall>b \<in> set (lru_list (cache cd)).
            \<not> cb_dirty b \<longrightarrow> file_blocks d (cb_block_no b) = cb_data b)
          \<longrightarrow> (\<forall>b \<in> set (lru_list (cache cd')). file_blocks d' (cb_block_no b) = cb_data b)))"
proof (intro impI)
  assume h: "cd_disk cd = Some d \<and> distinct (map cb_block_no (lru_list (cache cd))) \<and>
   flush cd = (cd', OK)"
  let ?l = "lru_list (cache cd)"
  let ?ws = "getDirtyBlocks (cache cd)"
  from h have dk: "cd_disk cd = Some d" and dist: "distinct (map cb_block_no ?l)"
    and fl: "flush cd = (cd', OK)" by auto
  obtain d' c' e where lp: "flush_loop d (cache cd) ?ws = (d', c', e)"
    by (cases "flush_loop d (cache cd) ?ws") auto
  from fl dk lp have e: "e = OK" and cd': "cd' = cd\<lparr>cd_disk := Some d', cache := c'\<rparr>"
    by (auto simp: flush_def split: if_splits)
  have l0: "?l = clear_keys {} ?l" by (simp add: clear_keys_def)
  from flush_loop_OK[OF lp[unfolded e] dist l0]
  have lc: "lru_list c' = clear_keys (fst ` set ?ws) ?l"
    and keep: "\<And>n. n \<notin> fst ` set ?ws \<Longrightarrow> file_blocks d' n = file_blocks d n"
    and wrote: "distinct (map fst ?ws) \<Longrightarrow> (\<forall>(n, data) \<in> set ?ws. file_blocks d' n = data)"
    by auto
  have keys: "fst ` set ?ws = cb_block_no ` {b \<in> set ?l. cb_dirty b}"
    by (auto simp: getDirtyBlocks_def image_iff)
  have dws: "distinct (map fst ?ws)"
    using dist by (simp add: getDirtyBlocks_def comp_def distinct_map_filter)
  have inj: "\<And>a b. a \<in> set ?l \<Longrightarrow> b \<in> set ?l \<Longrightarrow> cb_block_no a = cb_block_no b \<Longrightarrow> a = b"
    using dist by (meson distinct_map inj_onD)
  have nodirty: "\<forall>b \<in> set (lru_list c'). \<not> cb_dirty b"
    by (auto simp: lc clear_keys_def keys)
  have kd: "map cb_block_no (lru_list c') = map cb_block_no ?l"
    "map cb_data (lru_list c') = map cb_data ?l"
    by (simp_all add: lc clear_keys_def comp_def if_distrib[of cb_data] cong: if_cong)
  have agree: "file_blocks d' (cb_block_no b) = cb_data b"
    if b: "b \<in> set ?l" and c: "cb_dirty b \<or> file_blocks d (cb_block_no b) = cb_data b" for b
  proof (cases "cb_dirty b")
    case True
    then have "(cb_block_no b, cb_data b) \<in> set ?ws" using b by (auto simp: getDirtyBlocks_def)
    with wrote[OF dws] show ?thesis by auto
  next
    case False
    have "cb_block_no b \<notin> fst ` set ?ws"
    proof
      assume "cb_block_no b \<in> fst ` set ?ws"
      then obtain a where "a \<in> set ?l" "cb_dirty a" "cb_block_no a = cb_block_no b"
        unfolding keys by auto
      with inj[of a b] b False show False by auto
    qed
    with keep False c show ?thesis by simp
  qed
  have all: "\<forall>b \<in> set (lru_list c'). file_blocks d' (cb_block_no b) = cb_data b"
    if cl: "\<forall>b \<in> set ?l. \<not> cb_dirty b \<longrightarrow> file_blocks d (cb_block_no b) = cb_data b"
  proof
    fix b assume "b \<in> set (lru_list c')"
    then obtain b0 where b0: "b0 \<in> set ?l" "cb_block_no b = cb_block_no b0" "cb_data b = cb_data b0"
      by (auto simp: lc clear_keys_def)
    with agree[of b0] cl show "file_blocks d' (cb_block_no b) = cb_data b" by auto
  qed
  show "\<exists>d'. cd_disk cd' = Some d' \<and>
        (\<forall>b \<in> set (lru_list (cache cd')). \<not> cb_dirty b) \<and>
        map cb_block_no (lru_list (cache cd')) = map cb_block_no (lru_list (cache cd)) \<and>
        map cb_data (lru_list (cache cd')) = map cb_data (lru_list (cache cd)) \<and>
        (\<forall>b \<in> set (lru_list (cache cd)).
           cb_dirty b \<or> file_blocks d (cb_block_no b) = cb_data b
             \<longrightarrow> file_blocks d' (cb_block_no b) = cb_data b) \<and>
        ((\<forall>b \<in> set (lru_list (cache cd)).
            \<not> cb_dirty b \<longrightarrow> file_blocks d (cb_block_no b) = cb_data b)
          \<longrightarrow> (\<forall>b \<in> set (lru_list (cache cd')). file_blocks d' (cb_block_no b) = cb_data b))"
    using nodirty kd agree all by (intro exI[of _ d']) (auto simp: cd')
qed

lemma ex_hello_not_zero: "ex_hello_block \<noteq> zero_block"
proof
  assume "ex_hello_block = zero_block"
  then have "hd ex_hello_block = hd zero_block" by simp
  then show False by (simp add: ex_hello_block_def pad_block_def name_bytes_def zero_block_def)
qed

lemma ex_flush_dirty: "flush ex_cd_dirty = (ex_cd_flushed, OK)"
  by (simp add: flush_def ex_cd_dirty_def ex_cd_flushed_def ex_cd_empty_def ex_cache_def
      getDirtyBlocks_def disk_writeBlock_def ex_disk_def validateBlockNo_def clearDirty_def
      disk_sync_def word_less_nat_alt)

theorem flush_contract_witness:
  "cd_disk ex_cd_dirty = Some ex_disk \<and>
   distinct (map cb_block_no (lru_list (cache ex_cd_dirty))) \<and>
   flush ex_cd_dirty = (ex_cd_flushed, OK) \<and>
   map cb_block_no (lru_list (cache ex_cd_dirty)) = [9, 8] \<and>
   map cb_dirty (lru_list (cache ex_cd_dirty)) = [True, False] \<and>
   file_blocks ex_disk 8 = cb_data (lru_list (cache ex_cd_dirty) ! 1) \<and>
   (\<exists>d'. cd_disk ex_cd_flushed = Some d' \<and>
      (\<forall>b \<in> set (lru_list (cache ex_cd_flushed)). \<not> cb_dirty b) \<and>
      (\<forall>b \<in> set (lru_list (cache ex_cd_flushed)). file_blocks d' (cb_block_no b) = cb_data b))"
proof -
  have h: "cd_disk ex_cd_dirty = Some ex_disk"
    "distinct (map cb_block_no (lru_list (cache ex_cd_dirty)))"
    "\<forall>b \<in> set (lru_list (cache ex_cd_dirty)).
       \<not> cb_dirty b \<longrightarrow> file_blocks ex_disk (cb_block_no b) = cb_data b"
    by (simp_all add: ex_cd_dirty_def ex_cd_empty_def ex_cache_def ex_disk_def ex_blocks_def)
  have e: "map cb_block_no (lru_list (cache ex_cd_dirty)) = [9, 8]"
    "map cb_dirty (lru_list (cache ex_cd_dirty)) = [True, False]"
    "file_blocks ex_disk 8 = cb_data (lru_list (cache ex_cd_dirty) ! 1)"
    by (simp_all add: ex_cd_dirty_def ex_cd_empty_def ex_cache_def ex_disk_def ex_blocks_def)
  from flush_contract[of ex_cd_dirty ex_disk ex_cd_flushed] h ex_flush_dirty
  have "\<exists>d'. cd_disk ex_cd_flushed = Some d' \<and>
      (\<forall>b \<in> set (lru_list (cache ex_cd_flushed)). \<not> cb_dirty b) \<and>
      (\<forall>b \<in> set (lru_list (cache ex_cd_flushed)). file_blocks d' (cb_block_no b) = cb_data b)"
    by blast
  with h e ex_flush_dirty show ?thesis by simp
qed

text \<open>
  The claim as stated fails for a clean entry that differs from the disk, which the
  interface itself produces: read block 9 through the cache, disable the cache, write block
  9. The write goes to the disk only, the flush that follows succeeds and writes nothing.
\<close>

theorem flush_contract_counterexample:
  "cached_readBlock ex_cd_empty 9 = Some (ex_cd_read, Inr ex_hello_block) \<and>
   cached_writeBlock (setCacheEnabled ex_cd_read False) 9 zero_block False = Some (ex_cd_stale, OK) \<and>
   flush ex_cd_stale = (ex_cd_stale, OK) \<and>
   map cb_block_no (lru_list (cache ex_cd_stale)) = [9] \<and>
   cb_data (hd (lru_list (cache ex_cd_stale))) \<noteq> file_blocks (the (cd_disk ex_cd_stale)) 9"
proof (intro conjI)
  show "cached_readBlock ex_cd_empty 9 = Some (ex_cd_read, Inr ex_hello_block)"
    by (simp add: cached_readBlock_def ex_cd_empty_def ex_cd_read_def ex_cache_def
        LRUCache_get_def LRUCache_put_def cache_find_def evict_to_fit.simps
        disk_readBlock_def ex_disk_def ex_blocks_def validateBlockNo_def word_less_nat_alt)
  show "cached_writeBlock (setCacheEnabled ex_cd_read False) 9 zero_block False = Some (ex_cd_stale, OK)"
    by (simp add: cached_writeBlock_def setCacheEnabled_def ex_cd_read_def ex_cd_stale_def
        ex_cd_empty_def ex_cache_def disk_writeBlock_def ex_disk_def validateBlockNo_def
        word_less_nat_alt)
  show "flush ex_cd_stale = (ex_cd_stale, OK)"
    by (simp add: flush_def ex_cd_stale_def ex_cd_read_def ex_cd_empty_def ex_cache_def
        getDirtyBlocks_def disk_sync_def ex_disk_def)
  show "map cb_block_no (lru_list (cache ex_cd_stale)) = [9]"
    by (simp add: ex_cd_stale_def ex_cd_read_def ex_cd_empty_def ex_cache_def)
  show "cb_data (hd (lru_list (cache ex_cd_stale))) \<noteq> file_blocks (the (cd_disk ex_cd_stale)) 9"
    using ex_hello_not_zero
    by (simp add: ex_cd_stale_def ex_cd_read_def ex_cd_empty_def ex_cache_def ex_disk_def)
qed

section \<open>Path normalisation, splitting and resolution\<close>


lemma runs_collapse: "(b \<longrightarrow> cur = []) \<Longrightarrow> runs cur (collapse_slashes b s) = runs cur s"
  by (induction s arbitrary: b cur) auto

lemma runs_snoc_slash: "runs cur (s @ ''/'') = runs cur s"
  by (induction s arbitrary: cur) auto

lemma runs_append_slashes: "runs cur (s @ replicate k CHR ''/'') = runs cur s"
proof (induction k)
  case 0 then show ?case by simp
next
  case (Suc k)
  have "s @ replicate (Suc k) CHR ''/'' = (s @ replicate k CHR ''/'') @ ''/''"
    by (simp add: replicate_append_same)
  then show ?case using Suc runs_snoc_slash by metis
qed

lemma strip_rev_decomp: "\<exists>k. r = replicate k CHR ''/'' @ strip_trailing_rev r"
proof (induction r rule: strip_trailing_rev.induct)
  case 1 then show ?case by simp
next
  case (2 c rest)
  show ?case
  proof (cases "rest \<noteq> [] \<and> c = CHR ''/''")
    case True
    with 2 obtain k where "rest = replicate k CHR ''/'' @ strip_trailing_rev rest" by auto
    then have "c # rest = replicate (Suc k) CHR ''/'' @ strip_trailing_rev (c # rest)"
      using True by simp
    then show ?thesis by blast
  next
    case False
    then have "c # rest = replicate 0 CHR ''/'' @ strip_trailing_rev (c # rest)" by auto
    then show ?thesis by blast
  qed
qed

lemma strip_trailing_decomp: "\<exists>k. r = strip_trailing r @ replicate k CHR ''/''"
proof -
  from strip_rev_decomp[of "rev r"] obtain k where
    "rev r = replicate k CHR ''/'' @ strip_trailing_rev (rev r)" by blast
  then have "rev (rev r) = rev (replicate k CHR ''/'' @ strip_trailing_rev (rev r))" by simp
  then have "r = strip_trailing r @ replicate k CHR ''/''"
    by (simp add: strip_trailing_def)
  then show ?thesis by blast
qed

lemma runs_strip_trailing: "runs cur (strip_trailing r) = runs cur r"
proof -
  from strip_trailing_decomp[of r] obtain k where k: "r = strip_trailing r @ replicate k CHR ''/''"
    by blast
  have "runs cur r = runs cur (strip_trailing r @ replicate k CHR ''/'')" using k by simp
  then show ?thesis by (simp add: runs_append_slashes)
qed

lemma components_normalize: "path_components (normalizePath p) = path_components p"
  by (cases p) (auto simp: normalizePath_def path_components_def runs_collapse runs_strip_trailing Let_def)

text \<open>shape of the stripped string\<close>

lemma strip_rev_shape:
  "r \<noteq> [] \<Longrightarrow> strip_trailing_rev r \<noteq> [] \<and>
     (strip_trailing_rev r = [last r] \<or> hd (strip_trailing_rev r) \<noteq> CHR ''/'')"
  by (induction r rule: strip_trailing_rev.induct) (auto split: if_splits)

lemma strip_rev_last: "r \<noteq> [] \<Longrightarrow> last (strip_trailing_rev r) = last r"
  by (induction r rule: strip_trailing_rev.induct) auto

lemma strip_trailing_shape:
  assumes "r \<noteq> []" "hd r = CHR ''/''"
  shows "strip_trailing r \<noteq> [] \<and> hd (strip_trailing r) = CHR ''/'' \<and>
         (strip_trailing r = ''/'' \<or> last (strip_trailing r) \<noteq> CHR ''/'')"
proof -
  let ?t = "strip_trailing_rev (rev r)"
  from assms have rr: "rev r \<noteq> []" and lr: "last (rev r) = CHR ''/''"
    by (simp_all add: last_rev)
  from strip_rev_shape[OF rr] have ne: "?t \<noteq> []"
    and sh: "?t = [last (rev r)] \<or> hd ?t \<noteq> CHR ''/''" by auto
  from strip_rev_last[OF rr] lr have lt: "last ?t = CHR ''/''" by simp
  have "hd (rev ?t) = CHR ''/''" using ne lt by (simp add: hd_rev)
  moreover have "rev ?t = ''/'' \<or> last (rev ?t) \<noteq> CHR ''/''"
    using sh lr ne by (auto simp: last_rev)
  ultimately show ?thesis using ne by (simp add: strip_trailing_def)
qed

lemma collapse_no_double:
  "no_double_slash (collapse_slashes b s) \<and>
   (b \<longrightarrow> collapse_slashes b s = [] \<or> hd (collapse_slashes b s) \<noteq> CHR ''/'')"
proof (induction s arbitrary: b)
  case Nil then show ?case by simp
next
  case (Cons c s)
  show ?case
  proof (cases "c = CHR ''/''")
    case True
    from Cons[of True] show ?thesis using True
      by (cases "collapse_slashes True s") auto
  next
    case False
    from Cons[of False] show ?thesis using False
      by (cases "collapse_slashes False s") auto
  qed
qed

lemma collapse_last:
  "s \<noteq> [] \<Longrightarrow> last s \<noteq> CHR ''/'' \<Longrightarrow>
     collapse_slashes b s \<noteq> [] \<and> last (collapse_slashes b s) = last s"
  by (induction s arbitrary: b) (auto split: if_splits)

lemma collapse_hd:
  "s \<noteq> [] \<Longrightarrow> hd s = CHR ''/'' \<Longrightarrow>
     collapse_slashes False s \<noteq> [] \<and> hd (collapse_slashes False s) = CHR ''/''"
  by (cases s) auto

lemma normalize_shape:
  "normalizePath p \<noteq> [] \<and> hd (normalizePath p) = CHR ''/'' \<and>
   no_double_slash (normalizePath p) \<and>
   (normalizePath p = ''/'' \<or> last (normalizePath p) \<noteq> CHR ''/'')"
proof (cases "p = []")
  case True
  then show ?thesis by (simp add: normalizePath_def)
next
  case False
  define r where "r = (if hd p \<noteq> CHR ''/'' then CHR ''/'' # p else p)"
  have r: "r \<noteq> []" "hd r = CHR ''/''" using False by (auto simp: r_def)
  have n: "normalizePath p = collapse_slashes False (strip_trailing r)"
    using False by (simp add: normalizePath_def r_def Let_def)
  note sh = strip_trailing_shape[OF r]
  from sh collapse_hd[of "strip_trailing r"]
  have h: "normalizePath p \<noteq> []" "hd (normalizePath p) = CHR ''/''" by (auto simp: n)
  have nd: "no_double_slash (normalizePath p)" using collapse_no_double by (simp add: n)
  have "normalizePath p = ''/'' \<or> last (normalizePath p) \<noteq> CHR ''/''"
  proof (cases "strip_trailing r = ''/''")
    case True
    then show ?thesis by (simp add: n)
  next
    case False
    with sh have "last (strip_trailing r) \<noteq> CHR ''/''" by simp
    with sh collapse_last[of "strip_trailing r" False] show ?thesis by (simp add: n)
  qed
  with h nd show ?thesis by simp
qed


lemma runs_takeWhile:
  "runs cur s =
     (case dropWhile (\<lambda>c. c \<noteq> CHR ''/'') s of
        [] \<Rightarrow> (if cur @ takeWhile (\<lambda>c. c \<noteq> CHR ''/'') s = [] then []
               else [cur @ takeWhile (\<lambda>c. c \<noteq> CHR ''/'') s])
      | x # rest \<Rightarrow>
          (if cur @ takeWhile (\<lambda>c. c \<noteq> CHR ''/'') s = [] then runs [] rest
           else (cur @ takeWhile (\<lambda>c. c \<noteq> CHR ''/'') s) # runs [] rest))"
proof (induction s arbitrary: cur)
  case Nil
  then show ?case by simp
next
  case (Cons a s)
  show ?case
  proof (cases "a = CHR ''/''")
    case True
    then show ?thesis by simp
  next
    case False
    have "runs cur (a # s) = runs (cur @ [a]) s" using False by simp
    also have "\<dots> = (case dropWhile (\<lambda>c. c \<noteq> CHR ''/'') s of
        [] \<Rightarrow> [(cur @ [a]) @ takeWhile (\<lambda>c. c \<noteq> CHR ''/'') s]
      | x # rest \<Rightarrow> ((cur @ [a]) @ takeWhile (\<lambda>c. c \<noteq> CHR ''/'') s) # runs [] rest)"
      by (subst Cons.IH) (simp cong: list.case_cong)
    finally show ?thesis using False by (simp cong: list.case_cong)
  qed
qed


lemma runs_no_slash_string:
  "\<forall>x \<in> set s. x \<noteq> CHR ''/'' \<Longrightarrow> runs cur s = (if cur @ s = [] then [] else [cur @ s])"
  by (induction s arbitrary: cur) auto

lemma tokens_runs: "filter (\<lambda>t. t \<noteq> []) (getline_tokens s) = runs [] s"
proof (induction s rule: getline_tokens.induct)
  case (1 s)
  show ?case
  proof (cases "s = []")
    case True
    then show ?thesis by (simp add: getline_tokens.simps)
  next
    case ne: False
    let ?tok = "takeWhile (\<lambda>c. c \<noteq> CHR ''/'') s" and ?rest = "dropWhile (\<lambda>c. c \<noteq> CHR ''/'') s"
    show ?thesis
    proof (cases "?rest = []")
      case True
      then have all: "\<forall>x \<in> set s. x \<noteq> CHR ''/''" by (simp add: dropWhile_eq_Nil_conv)
      then have tok: "?tok = s" by (simp add: takeWhile_eq_all_conv)
      have g: "getline_tokens s = [s]"
        using ne True tok by (subst getline_tokens.simps) (simp add: Let_def)
      show ?thesis using ne by (simp add: g runs_no_slash_string[OF all])
    next
      case False
      then obtain x r where xr: "?rest = x # r" by (cases ?rest) auto
      from "1.IH"[OF ne refl refl False] xr
      have ih: "filter (\<lambda>t. t \<noteq> []) (getline_tokens r) = runs [] r" by simp
      have g: "getline_tokens s = ?tok # getline_tokens r"
        using ne False xr by (subst getline_tokens.simps) (simp add: Let_def)
      have r: "runs [] s = (if ?tok = [] then runs [] r else ?tok # runs [] r)"
        by (subst runs_takeWhile) (simp add: xr)
      show ?thesis by (simp add: g r ih)
    qed
  qed
qed


lemma foldl_split_step_filter:
  "foldl split_step cs (filter (\<lambda>t. t \<noteq> []) toks) = foldl split_step cs toks"
  by (induction toks arbitrary: cs) (auto simp: split_step_def)

lemma path_components_root: "path_components ''/'' = []"
  by (simp add: path_components_def)

lemma splitPath_components: "splitPath p = foldl split_step [] (path_components p)"
proof -
  let ?n = "normalizePath p"
  have ne: "?n \<noteq> []" using normalize_shape[of p] by simp
  have "foldl split_step [] (getline_tokens ?n) = foldl split_step [] (path_components ?n)"
    using foldl_split_step_filter[of "[]" "getline_tokens ?n"]
    by (simp add: tokens_runs path_components_def)
  then have "splitPath p = foldl split_step [] (path_components ?n)"
    using ne path_components_root by (auto simp: splitPath_def Let_def)
  then show ?thesis by (simp add: components_normalize)
qed

lemma resolvePath_components:
  "resolvePath s p = walk_components s ROOT_INODE (foldl split_step [] (path_components p))"
proof -
  have sp: "splitPath (normalizePath p) = foldl split_step [] (path_components p)"
    by (simp add: splitPath_components components_normalize)
  show ?thesis
  proof (cases "normalizePath p = ''/''")
    case True
    then have "path_components p = []"
      using components_normalize[of p] path_components_root by simp
    with True show ?thesis by (simp add: resolvePath_def)
  next
    case False
    then show ?thesis
      by (cases "foldl split_step [] (path_components p)") (simp_all add: resolvePath_def sp Let_def)
  qed
qed

lemma dots_fold_empty:
  "\<forall>c \<in> set cs. c = ''.'' \<or> c = ''..'' \<Longrightarrow> foldl split_step [] cs = []"
  by (induction cs) (auto simp: split_step_def)

lemma runs_noslash:
  "CHR ''/'' \<notin> set cur \<Longrightarrow> c \<in> set (runs cur s) \<Longrightarrow> CHR ''/'' \<notin> set c"
proof (induction s arbitrary: cur)
  case Nil
  then show ?case by (auto split: if_splits)
next
  case (Cons a s)
  show ?case
  proof (cases "a = CHR ''/''")
    case True
    with Cons.prems have "c = cur \<or> c \<in> set (runs [] s)" by (auto split: if_splits)
    then show ?thesis using Cons.prems(1) Cons.IH[of "[]"] by auto
  next
    case False
    with Cons.prems have "c \<in> set (runs (cur @ [a]) s)" by simp
    moreover have "CHR ''/'' \<notin> set (cur @ [a])" using False Cons.prems(1) by auto
    ultimately show ?thesis using Cons.IH by blast
  qed
qed

lemma split_step_elems:
  assumes "\<forall>c \<in> set cs. P c" and "P t"
  shows "\<forall>c \<in> set (split_step cs t). P c"
  using assms by (auto simp: split_step_def dest: in_set_butlastD)

lemma foldl_split_step_elems:
  assumes "\<forall>c \<in> set cs. P c \<and> c \<noteq> [] \<and> c \<noteq> ''.'' \<and> c \<noteq> ''..''" and "\<forall>t \<in> set ts. P t"
  shows "\<forall>c \<in> set (foldl split_step cs ts). P c \<and> c \<noteq> [] \<and> c \<noteq> ''.'' \<and> c \<noteq> ''..''"
  using assms
proof (induction ts arbitrary: cs)
  case Nil then show ?case by simp
next
  case (Cons t ts)
  have "\<forall>c \<in> set (split_step cs t). P c \<and> c \<noteq> [] \<and> c \<noteq> ''.'' \<and> c \<noteq> ''..''"
    using Cons.prems by (auto simp: split_step_def dest: in_set_butlastD)
  from Cons.IH[OF this] Cons.prems(2) show ?case by simp
qed

lemma splitPath_elems:
  "\<forall>c \<in> set (splitPath p). CHR ''/'' \<notin> set c \<and> c \<noteq> [] \<and> c \<noteq> ''.'' \<and> c \<noteq> ''..''"
proof -
  have "\<forall>t \<in> set (path_components p). CHR ''/'' \<notin> set t"
    using runs_noslash[of "[]" _ p] by (auto simp: path_components_def)
  from foldl_split_step_elems[of "[]" "\<lambda>c. CHR ''/'' \<notin> set c", OF _ this]
  show ?thesis by (simp add: splitPath_components)
qed

text \<open>Claim C8, amended. The validator \<open>isValidPath\<close> returns false for the empty
  string and for every path that does not start with a slash, but path resolution does not
  consult it: \<open>normalizePath\<close> maps the empty string to the root path and treats a
  relative path as if a slash were put in front of it. The normalised path is absolute, has no
  repeated slash and no trailing slash unless it is the root path, and has the components of
  the input. \<open>resolvePath\<close> walks from the root inode over the component list after
  the lexical treatment of dot components: a single dot is dropped, a double dot removes the
  component before it and is dropped when there is none, so a path made of dot components
  only resolves to the root. The components that remain are non-empty, contain no slash and
  are neither dot nor double dot.\<close>

theorem path_layer:
  "((path = [] \<or> hd path \<noteq> CHR ''/'') \<longrightarrow> \<not> isValidPath path) \<and>
   normalizePath [] = ''/'' \<and>
   (path \<noteq> [] \<and> hd path \<noteq> CHR ''/'' \<longrightarrow> normalizePath path = normalizePath (CHR ''/'' # path)) \<and>
   normalizePath path \<noteq> [] \<and> hd (normalizePath path) = CHR ''/'' \<and>
   no_double_slash (normalizePath path) \<and>
   (normalizePath path = ''/'' \<or> last (normalizePath path) \<noteq> CHR ''/'') \<and>
   path_components (normalizePath path) = path_components path \<and>
   resolvePath s path = walk_components s ROOT_INODE (foldl split_step [] (path_components path)) \<and>
   split_step cs ''.'' = cs \<and> split_step [] ''..'' = [] \<and> split_step (cs @ [c]) ''..'' = cs \<and>
   ((\<forall>c \<in> set (path_components path). c = ''.'' \<or> c = ''..'') \<longrightarrow>
      resolvePath s path = Inr ROOT_INODE) \<and>
   (\<forall>c \<in> set (splitPath path). CHR ''/'' \<notin> set c \<and> c \<noteq> [] \<and> c \<noteq> ''.'' \<and> c \<noteq> ''..'')"
proof (intro conjI)
  show "(path = [] \<or> hd path \<noteq> CHR ''/'') \<longrightarrow> \<not> isValidPath path"
    by (auto simp: isValidPath_def)
  show "normalizePath [] = ''/''" by (simp add: normalizePath_def)
  show "path \<noteq> [] \<and> hd path \<noteq> CHR ''/'' \<longrightarrow> normalizePath path = normalizePath (CHR ''/'' # path)"
    by (simp add: normalizePath_def)
  show "normalizePath path \<noteq> []" "hd (normalizePath path) = CHR ''/''"
    "no_double_slash (normalizePath path)"
    "normalizePath path = ''/'' \<or> last (normalizePath path) \<noteq> CHR ''/''"
    using normalize_shape[of path] by auto
  show "path_components (normalizePath path) = path_components path"
    by (rule components_normalize)
  show "resolvePath s path = walk_components s ROOT_INODE (foldl split_step [] (path_components path))"
    by (rule resolvePath_components)
  show "split_step cs ''.'' = cs" "split_step [] ''..'' = []" "split_step (cs @ [c]) ''..'' = cs"
    by (simp_all add: split_step_def)
  show "(\<forall>c \<in> set (path_components path). c = ''.'' \<or> c = ''..'') \<longrightarrow>
      resolvePath s path = Inr ROOT_INODE"
    by (simp add: resolvePath_components dots_fold_empty)
  show "\<forall>c \<in> set (splitPath path). CHR ''/'' \<notin> set c \<and> c \<noteq> [] \<and> c \<noteq> ''.'' \<and> c \<noteq> ''..''"
    by (rule splitPath_elems)
qed


lemma ex_paths:
  "normalizePath ''f'' = ''/f''"
  "normalizePath ''//a//b/'' = ''/a/b''"
  "path_components ''/../.'' = [''..'', ''.'']"
  "path_components ''/a/./b/../c'' = [''a'', ''.'', ''b'', ''..'', ''c'']"
  "path_components ''f'' = [''f'']"
  "path_components [] = []"
  by (simp_all add: normalizePath_def strip_trailing_def path_components_def)

theorem path_layer_witness:
  "hd ''f'' \<noteq> CHR ''/'' \<and> \<not> isValidPath ''f'' \<and> \<not> isValidPath [] \<and>
   normalizePath ''f'' = normalizePath ''/f'' \<and>
   normalizePath ''//a//b/'' = ''/a/b'' \<and>
   path_components ''/../.'' = [''..'', ''.''] \<and>
   resolvePath ex_fs ''/../.'' = Inr ROOT_INODE \<and>
   splitPath ''/a/./b/../c'' = [''a'', ''c'']"
  using path_layer[of "''f''" ex_fs "[]" "''x''"] path_layer[of "[]" ex_fs "[]" "''x''"]
    path_layer[of "''/../.''" ex_fs "[]" "''x''"]
  by (simp add: ex_paths splitPath_components split_step_def)

theorem path_layer_counterexample:
  "resolvePath ex_fs [] = Inr ROOT_INODE \<and> hd ''f'' \<noteq> CHR ''/'' \<and> resolvePath ex_fs ''f'' = Inr 1"
  by (simp add: resolvePath_components ex_paths split_step_def ex_readInode ex_root_lookup
      isDirectory_def ex_dir_inode_def ROOT_INODE_def)


section \<open>Truncating a file\<close>


lemma same_layout_refl: "same_layout a a"
  by (simp add: same_layout_def)

lemma same_layout_trans: "same_layout a a' \<Longrightarrow> same_layout a' a'' \<Longrightarrow> same_layout a a''"
  by (simp add: same_layout_def)

lemma freeBlock_layout: "same_layout a (fst (freeBlock a p))"
  by (simp add: same_layout_def freeBlock_def Let_def bump_block_frees_def updateBlockStats_def
      bitmap_clear_def)

lemma same_layout_covers: "same_layout a a' \<Longrightarrow> bitmap_covers a \<Longrightarrow> bitmap_covers a'"
  by (simp add: same_layout_def bitmap_covers_def)

lemma data_index_inj:
  "b \<noteq> p \<Longrightarrow> unat (absoluteToDataBlock a b) \<noteq> unat (absoluteToDataBlock a p)"
  using word_unat_eq_iff[of "b - data_block_start (superblock a)" "p - data_block_start (superblock a)"]
  by (simp add: absoluteToDataBlock_def)

lemma isBlockAllocated_refcount_upd:
  "isBlockAllocated (a\<lparr>block_refcount := r\<rparr>) b = isBlockAllocated a b"
  by (simp add: isBlockAllocated_def)

lemma isBlockAllocated_cleared:
  "isBlockAllocated (bump_block_frees (updateBlockStats
       (a0\<lparr>block_bitmap := bm, block_bitmap_dirty := True\<rparr>) k)) b =
   (loaded a0 \<and> isValidDataBlock a0 b \<and>
    bitmap_get bm (data_block_count (superblock a0)) (absoluteToDataBlock a0 b))"
  by (auto simp: isBlockAllocated_def bump_block_frees_def updateBlockStats_def Let_def
      isValidDataBlock_def absoluteToDataBlock_def)

lemma getBlockRef_cleared:
  "getBlockRef (bump_block_frees (updateBlockStats
       (a0\<lparr>block_bitmap := bm, block_bitmap_dirty := True\<rparr>) k)) b = getBlockRef a0 b"
  by (auto simp: getBlockRef_def bump_block_frees_def updateBlockStats_def Let_def
      isValidDataBlock_def absoluteToDataBlock_def)

lemma u8_pred_le: "(1::8 word) < w \<Longrightarrow> (ucast (w - 1) :: 32 word) \<le> ucast w"
  by (simp add: word_le_nat_alt unat_ucast_u8 word_less_nat_alt unat_minus_one) unat_arith

lemma freeBlock_no_gain_step:
  assumes cov: "bitmap_covers a"
    and al: "isBlockAllocated (fst (freeBlock a p)) b"
  shows "isBlockAllocated a b \<and> getBlockRef (fst (freeBlock a p)) b \<le> getBlockRef a b"
proof (cases "isBlockAllocated a p")
  case False
  then show ?thesis using al by (simp add: freeBlock_unallocated)
next
  case True
  show ?thesis
  proof (cases "1 < getBlockRef a p")
    case sh: True
    note fb = freeBlock_shared[OF True sh]
    from al have "isBlockAllocated a b"
      by (simp add: fb isBlockAllocated_refcount_upd)
    moreover have "getBlockRef (fst (freeBlock a p)) b \<le> getBlockRef a b"
    proof (cases "b = p")
      case True
      with sh show ?thesis
        by (auto simp: fb getBlockRef_def Let_def ucast_u8_gt1 u8_pred_le split: if_splits)
    next
      case False
      then show ?thesis
        using data_index_inj[OF False, of a]
        by (simp add: fb getBlockRef_def Let_def)
    qed
    ultimately show ?thesis by simp
  next
    case la: False
    note fb = freeBlock_last[OF True la]
    let ?a1 = "if refcount_enabled a \<and> unat (absoluteToDataBlock a p) < length (block_refcount a)
          then a\<lparr>block_refcount := (block_refcount a)[unat (absoluteToDataBlock a p) := 0]\<rparr>
          else a"
    have a1: "loaded ?a1 = loaded a" "isValidDataBlock ?a1 b = isValidDataBlock a b"
      "absoluteToDataBlock ?a1 b = absoluteToDataBlock a b"
      "data_block_count (superblock ?a1) = data_block_count (superblock a)"
      by simp_all
    have al': "isBlockAllocated (fst (freeBlock a p)) b =
        (loaded a \<and> isValidDataBlock a b \<and>
         bitmap_get (bitmap_clear (block_bitmap a) (data_block_count (superblock a))
            (absoluteToDataBlock a p)) (data_block_count (superblock a)) (absoluteToDataBlock a b))"
      unfolding fb fst_conv isBlockAllocated_cleared a1 ..
    have ref': "getBlockRef (fst (freeBlock a p)) b = getBlockRef ?a1 b"
      unfolding fb fst_conv getBlockRef_cleared ..
    have ne: "b \<noteq> p"
    proof
      assume bp: "b = p"
      from al have "bitmap_get (bitmap_clear (block_bitmap a) (data_block_count (superblock a))
            (absoluteToDataBlock a p)) (data_block_count (superblock a)) (absoluteToDataBlock a b)"
        by (simp add: al')
      with cov show False
        unfolding bp by (simp add: bitmap_covers_def bitmap_get_clear_same)
    qed
    then have ne': "absoluteToDataBlock a p \<noteq> absoluteToDataBlock a b"
      by (simp add: absoluteToDataBlock_def)
    from al[unfolded al'] have "isBlockAllocated a b"
      by (simp add: isBlockAllocated_def bitmap_get_clear_other[OF ne'])
    moreover have "getBlockRef (fst (freeBlock a p)) b \<le> getBlockRef a b"
      unfolding ref' using data_index_inj[OF ne, of a]
      by (simp add: getBlockRef_def Let_def)
    ultimately show ?thesis by simp
  qed
qed

lemma freeBlock_released_step:
  assumes cov: "bitmap_covers a"
    and al: "isBlockAllocated (fst (freeBlock a b)) b"
  shows "1 < getBlockRef a b \<and> getBlockRef (fst (freeBlock a b)) b < getBlockRef a b"
proof -
  from freeBlock_no_gain_step[OF cov al] have al0: "isBlockAllocated a b" by simp
  show ?thesis
  proof (cases "1 < getBlockRef a b")
    case True
    note fb = freeBlock_shared[OF al0 True]
    from True show ?thesis
      by (auto simp: fb getBlockRef_def Let_def ucast_u8_gt1 ucast_u8_less split: if_splits)
        unat_arith
  next
    case False
    note fb = freeBlock_last[OF al0 False]
    let ?a1 = "if refcount_enabled a \<and> unat (absoluteToDataBlock a b) < length (block_refcount a)
          then a\<lparr>block_refcount := (block_refcount a)[unat (absoluteToDataBlock a b) := 0]\<rparr>
          else a"
    have a1: "loaded ?a1 = loaded a" "isValidDataBlock ?a1 b = isValidDataBlock a b"
      "absoluteToDataBlock ?a1 b = absoluteToDataBlock a b"
      "data_block_count (superblock ?a1) = data_block_count (superblock a)"
      by simp_all
    have al': "isBlockAllocated (fst (freeBlock a b)) b =
        (loaded a \<and> isValidDataBlock a b \<and>
         bitmap_get (bitmap_clear (block_bitmap a) (data_block_count (superblock a))
            (absoluteToDataBlock a b)) (data_block_count (superblock a)) (absoluteToDataBlock a b))"
      unfolding fb fst_conv isBlockAllocated_cleared a1 ..
    from al cov show ?thesis
      by (simp add: al' bitmap_covers_def bitmap_get_clear_same)
  qed
qed


lemma no_gain_refl: "no_gain a a b"
  by (simp add: no_gain_def same_layout_refl)

lemma released_no_gain: "released a a' b \<Longrightarrow> no_gain a a' b"
  by (simp add: released_def)

lemma no_gain_covers: "no_gain a0 a b \<Longrightarrow> bitmap_covers a0 \<Longrightarrow> bitmap_covers a"
  by (auto simp: no_gain_def intro: same_layout_covers)

lemma no_gain_step:
  assumes cov: "bitmap_covers a0" and ng: "no_gain a0 a b"
  shows "no_gain a0 (fst (freeBlock a p)) b"
proof -
  note cov' = no_gain_covers[OF ng cov]
  have "same_layout a0 (fst (freeBlock a p))"
    using ng freeBlock_layout[of a p] by (auto simp: no_gain_def intro: same_layout_trans)
  moreover have "isBlockAllocated (fst (freeBlock a p)) b \<longrightarrow>
      isBlockAllocated a0 b \<and> getBlockRef (fst (freeBlock a p)) b \<le> getBlockRef a0 b"
    using freeBlock_no_gain_step[OF cov', of p b] ng by (auto simp: no_gain_def)
  ultimately show ?thesis by (simp add: no_gain_def)
qed

lemma released_step:
  assumes cov: "bitmap_covers a0" and rl: "released a0 a b"
  shows "released a0 (fst (freeBlock a p)) b"
proof -
  note ng = released_no_gain[OF rl]
  note cov' = no_gain_covers[OF ng cov]
  show ?thesis
    using no_gain_step[OF cov ng, of p] freeBlock_no_gain_step[OF cov', of p b] rl
    by (auto simp: released_def)
qed

lemma released_hit:
  assumes cov: "bitmap_covers a0" and ng: "no_gain a0 a b"
  shows "released a0 (fst (freeBlock a b)) b"
proof -
  note cov' = no_gain_covers[OF ng cov]
  show ?thesis
    using no_gain_step[OF cov ng, of b] freeBlock_released_step[OF cov', of b]
      freeBlock_no_gain_step[OF cov', of b b] ng
    by (auto simp: released_def no_gain_def)
qed

lemma fst_free_ptr:
  "fst (free_ptr st p) = (if p \<noteq> INVALID_BLOCK then fst (freeBlock (fst st) p) else fst st)"
  by (simp add: free_ptr_def)

lemma free_ptr_no_gain:
  "bitmap_covers a0 \<Longrightarrow> no_gain a0 (fst st) b \<Longrightarrow> no_gain a0 (fst (free_ptr st p)) b"
  by (simp add: fst_free_ptr no_gain_step)

lemma free_ptr_released:
  "bitmap_covers a0 \<Longrightarrow> released a0 (fst st) b \<Longrightarrow> released a0 (fst (free_ptr st p)) b"
  by (simp add: fst_free_ptr released_step)

lemma free_ptrs_no_gain:
  "bitmap_covers a0 \<Longrightarrow> no_gain a0 (fst st) b \<Longrightarrow> no_gain a0 (fst (foldl free_ptr st ps)) b"
  by (induction ps arbitrary: st) (simp_all add: free_ptr_no_gain)

lemma free_ptrs_released:
  "bitmap_covers a0 \<Longrightarrow> released a0 (fst st) b \<Longrightarrow> released a0 (fst (foldl free_ptr st ps)) b"
  by (induction ps arbitrary: st) (simp_all add: free_ptr_released)

lemma free_ptrs_hit:
  assumes cov: "bitmap_covers a0" and nin: "b \<noteq> INVALID_BLOCK"
  shows "b \<in> set ps \<Longrightarrow> no_gain a0 (fst st) b \<Longrightarrow> released a0 (fst (foldl free_ptr st ps)) b"
proof (induction ps arbitrary: st)
  case Nil
  then show ?case by simp
next
  case (Cons p ps)
  show ?case
  proof (cases "p = b")
    case True
    have "released a0 (fst (free_ptr st p)) b"
      using released_hit[OF cov Cons.prems(2)] nin True by (simp add: fst_free_ptr)
    then show ?thesis using free_ptrs_released[OF cov] by simp
  next
    case False
    with Cons.prems have "b \<in> set ps" by simp
    then show ?thesis using Cons.IH free_ptr_no_gain[OF cov Cons.prems(2)] by simp
  qed
qed

lemma drop_block_count_fields [simp]:
  "direct_blocks (drop_block_count i) = direct_blocks i"
  "single_indirect (drop_block_count i) = single_indirect i"
  "double_indirect (drop_block_count i) = double_indirect i"
  "isize (drop_block_count i) = isize i"
  "itype (drop_block_count i) = itype i"
  by (simp_all add: drop_block_count_def)

lemma free_ptr_fields [simp]:
  "direct_blocks (snd (free_ptr st p)) = direct_blocks (snd st)"
  "single_indirect (snd (free_ptr st p)) = single_indirect (snd st)"
  "double_indirect (snd (free_ptr st p)) = double_indirect (snd st)"
  "isize (snd (free_ptr st p)) = isize (snd st)"
  "itype (snd (free_ptr st p)) = itype (snd st)"
  by (simp_all add: free_ptr_def)

lemma free_ptrs_fields [simp]:
  "direct_blocks (snd (foldl free_ptr st ps)) = direct_blocks (snd st)"
  "single_indirect (snd (foldl free_ptr st ps)) = single_indirect (snd st)"
  "double_indirect (snd (foldl free_ptr st ps)) = double_indirect (snd st)"
  "isize (snd (foldl free_ptr st ps)) = isize (snd st)"
  "itype (snd (foldl free_ptr st ps)) = itype (snd st)"
  by (induction ps arbitrary: st) simp_all


lemma fst_free_direct:
  "fst (free_direct st i) =
     (if direct_blocks (snd st) ! i \<noteq> INVALID_BLOCK
      then fst (freeBlock (fst st) (direct_blocks (snd st) ! i)) else fst st)"
  by (simp add: free_direct_def)

lemma free_direct_no_gain:
  "bitmap_covers a0 \<Longrightarrow> no_gain a0 (fst st) b \<Longrightarrow> no_gain a0 (fst (free_direct st i)) b"
  by (simp add: fst_free_direct no_gain_step)

lemma free_direct_released:
  "bitmap_covers a0 \<Longrightarrow> released a0 (fst st) b \<Longrightarrow> released a0 (fst (free_direct st i)) b"
  by (simp add: fst_free_direct released_step)

lemma free_direct_fields [simp]:
  "single_indirect (snd (free_direct st i)) = single_indirect (snd st)"
  "double_indirect (snd (free_direct st i)) = double_indirect (snd st)"
  "isize (snd (free_direct st i)) = isize (snd st)"
  "itype (snd (free_direct st i)) = itype (snd st)"
  "length (direct_blocks (snd (free_direct st i))) = length (direct_blocks (snd st))"
  by (simp_all add: free_direct_def)

lemma free_direct_nth:
  "i < length (direct_blocks (snd st)) \<Longrightarrow>
   direct_blocks (snd (free_direct st i)) ! j =
     (if j = i then INVALID_BLOCK else direct_blocks (snd st) ! j)"
  by (simp add: free_direct_def)

lemma free_directs_no_gain:
  "bitmap_covers a0 \<Longrightarrow> no_gain a0 (fst st) b \<Longrightarrow> no_gain a0 (fst (foldl free_direct st xs)) b"
  by (induction xs arbitrary: st) (simp_all add: free_direct_no_gain)

lemma free_directs_released:
  "bitmap_covers a0 \<Longrightarrow> released a0 (fst st) b \<Longrightarrow> released a0 (fst (foldl free_direct st xs)) b"
  by (induction xs arbitrary: st) (simp_all add: free_direct_released)

lemma free_directs_fields [simp]:
  "single_indirect (snd (foldl free_direct st xs)) = single_indirect (snd st)"
  "double_indirect (snd (foldl free_direct st xs)) = double_indirect (snd st)"
  "isize (snd (foldl free_direct st xs)) = isize (snd st)"
  "itype (snd (foldl free_direct st xs)) = itype (snd st)"
  "length (direct_blocks (snd (foldl free_direct st xs))) = length (direct_blocks (snd st))"
  by (induction xs arbitrary: st) simp_all

lemma free_directs_nth:
  "\<forall>x \<in> set xs. x < length (direct_blocks (snd st)) \<Longrightarrow>
   direct_blocks (snd (foldl free_direct st xs)) ! j =
     (if j \<in> set xs then INVALID_BLOCK else direct_blocks (snd st) ! j)"
proof (induction xs arbitrary: st)
  case Nil
  then show ?case by simp
next
  case (Cons x xs)
  have "\<forall>y \<in> set xs. y < length (direct_blocks (snd (free_direct st x)))"
    using Cons.prems by simp
  from Cons.IH[OF this] Cons.prems show ?case
    by (simp add: free_direct_nth)
qed

lemma free_directs_hit:
  assumes cov: "bitmap_covers a0" and nin: "b \<noteq> INVALID_BLOCK"
  shows "k \<in> set xs \<Longrightarrow> \<forall>x \<in> set xs. x < length (direct_blocks (snd st)) \<Longrightarrow>
     direct_blocks (snd st) ! k = b \<Longrightarrow> no_gain a0 (fst st) b \<Longrightarrow>
     released a0 (fst (foldl free_direct st xs)) b"
proof (induction xs arbitrary: st)
  case Nil
  then show ?case by simp
next
  case (Cons x xs)
  show ?case
  proof (cases "x = k")
    case True
    have "released a0 (fst (free_direct st x)) b"
      using released_hit[OF cov Cons.prems(4)] nin True Cons.prems(3)
      by (simp add: fst_free_direct)
    then show ?thesis using free_directs_released[OF cov] by simp
  next
    case False
    with Cons.prems(1) have kin: "k \<in> set xs" by simp
    have bd: "\<forall>y \<in> set xs. y < length (direct_blocks (snd (free_direct st x)))"
      using Cons.prems(2) by simp
    have nth: "direct_blocks (snd (free_direct st x)) ! k = b"
      using Cons.prems(2,3) False by (simp add: free_direct_nth)
    show ?thesis
      using Cons.IH[OF kin bd nth free_direct_no_gain[OF cov Cons.prems(4)]] by simp
  qed
qed

lemma fst_free_l1_entry:
  "fst (free_l1_entry s st l1) =
     (if l1 \<noteq> INVALID_BLOCK then
        fst (freeBlock (fst (case readBlockInternal s l1 of
                               Inr l2_data \<Rightarrow> foldl free_ptr st (block_ptrs l2_data)
                             | Inl _ \<Rightarrow> st)) l1)
      else fst st)"
  by (simp add: free_l1_entry_def Let_def)

lemma free_l1_entry_no_gain:
  "bitmap_covers a0 \<Longrightarrow> no_gain a0 (fst st) b \<Longrightarrow> no_gain a0 (fst (free_l1_entry s st l1)) b"
  by (simp add: fst_free_l1_entry no_gain_step free_ptrs_no_gain split: sum.splits)

lemma free_l1_entry_released:
  "bitmap_covers a0 \<Longrightarrow> released a0 (fst st) b \<Longrightarrow> released a0 (fst (free_l1_entry s st l1)) b"
  by (simp add: fst_free_l1_entry released_step free_ptrs_released split: sum.splits)

lemma free_l1_entry_hit:
  "bitmap_covers a0 \<Longrightarrow> b \<noteq> INVALID_BLOCK \<Longrightarrow> l1 \<noteq> INVALID_BLOCK \<Longrightarrow>
   readBlockInternal s l1 = Inr blk \<Longrightarrow> b \<in> set (block_ptrs blk) \<Longrightarrow>
   no_gain a0 (fst st) b \<Longrightarrow> released a0 (fst (free_l1_entry s st l1)) b"
  by (simp add: fst_free_l1_entry released_step free_ptrs_hit)

lemma free_l1_entry_fields [simp]:
  "direct_blocks (snd (free_l1_entry s st l1)) = direct_blocks (snd st)"
  "single_indirect (snd (free_l1_entry s st l1)) = single_indirect (snd st)"
  "double_indirect (snd (free_l1_entry s st l1)) = double_indirect (snd st)"
  "isize (snd (free_l1_entry s st l1)) = isize (snd st)"
  "itype (snd (free_l1_entry s st l1)) = itype (snd st)"
  by (simp_all add: free_l1_entry_def Let_def split: sum.splits)

lemma free_l1_entries_no_gain:
  "bitmap_covers a0 \<Longrightarrow> no_gain a0 (fst st) b \<Longrightarrow>
   no_gain a0 (fst (foldl (free_l1_entry s) st ls)) b"
  by (induction ls arbitrary: st) (simp_all add: free_l1_entry_no_gain)

lemma free_l1_entries_released:
  "bitmap_covers a0 \<Longrightarrow> released a0 (fst st) b \<Longrightarrow>
   released a0 (fst (foldl (free_l1_entry s) st ls)) b"
  by (induction ls arbitrary: st) (simp_all add: free_l1_entry_released)

lemma free_l1_entries_fields [simp]:
  "direct_blocks (snd (foldl (free_l1_entry s) st ls)) = direct_blocks (snd st)"
  "single_indirect (snd (foldl (free_l1_entry s) st ls)) = single_indirect (snd st)"
  "double_indirect (snd (foldl (free_l1_entry s) st ls)) = double_indirect (snd st)"
  "isize (snd (foldl (free_l1_entry s) st ls)) = isize (snd st)"
  "itype (snd (foldl (free_l1_entry s) st ls)) = itype (snd st)"
  by (induction ls arbitrary: st) simp_all

lemma free_l1_entries_hit:
  assumes cov: "bitmap_covers a0" and nin: "b \<noteq> INVALID_BLOCK" and l1: "l1 \<noteq> INVALID_BLOCK"
    and rd: "readBlockInternal s l1 = Inr blk" and bin: "b \<in> set (block_ptrs blk)"
  shows "l1 \<in> set ls \<Longrightarrow> no_gain a0 (fst st) b \<Longrightarrow>
     released a0 (fst (foldl (free_l1_entry s) st ls)) b"
proof (induction ls arbitrary: st)
  case Nil
  then show ?case by simp
next
  case (Cons l ls)
  show ?case
  proof (cases "l = l1")
    case True
    have "released a0 (fst (free_l1_entry s st l)) b"
      unfolding True by (rule free_l1_entry_hit[OF cov nin l1 rd bin Cons.prems(2)])
    then show ?thesis using free_l1_entries_released[OF cov] by simp
  next
    case False
    with Cons.prems(1) have "l1 \<in> set ls" by simp
    then show ?thesis using Cons.IH free_l1_entry_no_gain[OF cov Cons.prems(2)] by simp
  qed
qed


lemma getIndirectBlock_Inr:
  assumes "getIndirectBlock s ib i = Inr b"
  shows "ib \<noteq> INVALID_BLOCK \<and> b \<noteq> INVALID_BLOCK \<and>
     (\<exists>blk. readBlockInternal s ib = Inr blk \<and> b \<in> set (block_ptrs blk))"
proof -
  from assms have ib: "ib \<noteq> INVALID_BLOCK" and i: "i < PTRS_PER_BLOCK"
    by (auto simp: getIndirectBlock_def split: if_splits)
  from assms ib i obtain blk where rd: "readBlockInternal s ib = Inr blk"
    and b: "get_ptr blk (unat i) = b" and nin: "b \<noteq> INVALID_BLOCK"
    by (auto simp: getIndirectBlock_def split: if_splits sum.splits)
  from i have "unat i < unat PTRS_PER_BLOCK" by (simp add: word_less_nat_alt)
  then have "get_ptr blk (unat i) \<in> set (block_ptrs blk)"
    unfolding block_ptrs_def by simp
  with ib rd b nin show ?thesis by auto
qed

lemma getFileBlock_Inr_cases:
  assumes "getFileBlock s inode k = Inr b"
  shows "b \<noteq> INVALID_BLOCK \<and>
     ((k < NUM_DIRECT_BLOCKS \<and> direct_blocks inode ! unat k = b) \<or>
      (\<not> k < NUM_DIRECT_BLOCKS \<and> single_indirect inode \<noteq> INVALID_BLOCK \<and>
       (\<exists>blk. readBlockInternal s (single_indirect inode) = Inr blk \<and> b \<in> set (block_ptrs blk))) \<or>
      (\<not> k < NUM_DIRECT_BLOCKS \<and> double_indirect inode \<noteq> INVALID_BLOCK \<and>
       (\<exists>l1_data l1 blk. readBlockInternal s (double_indirect inode) = Inr l1_data \<and>
          l1 \<in> set (block_ptrs l1_data) \<and> l1 \<noteq> INVALID_BLOCK \<and>
          readBlockInternal s l1 = Inr blk \<and> b \<in> set (block_ptrs blk))))"
proof (cases "k < NUM_DIRECT_BLOCKS")
  case True
  with assms show ?thesis by (auto simp: getFileBlock_def Let_def split: if_splits)
next
  case nd: False
  show ?thesis
  proof (cases "k - NUM_DIRECT_BLOCKS < PTRS_PER_BLOCK")
    case True
    with nd assms have si: "single_indirect inode \<noteq> INVALID_BLOCK"
      and gi: "getIndirectBlock s (single_indirect inode) (k - NUM_DIRECT_BLOCKS) = Inr b"
      by (auto simp: getFileBlock_def Let_def split: if_splits)
    from getIndirectBlock_Inr[OF gi] nd si show ?thesis by auto
  next
    case False
    with nd assms have di: "double_indirect inode \<noteq> INVALID_BLOCK"
      by (auto simp: getFileBlock_def Let_def split: if_splits)
    from False nd assms di obtain l1 where
      g1: "getIndirectBlock s (double_indirect inode)
             ((k - NUM_DIRECT_BLOCKS - PTRS_PER_BLOCK) div PTRS_PER_BLOCK) = Inr l1"
      and g2: "getIndirectBlock s l1
             ((k - NUM_DIRECT_BLOCKS - PTRS_PER_BLOCK) mod PTRS_PER_BLOCK) = Inr b"
      by (auto simp: getFileBlock_def Let_def split: if_splits sum.splits)
    from getIndirectBlock_Inr[OF g1] getIndirectBlock_Inr[OF g2] nd di show ?thesis
      by blast
  qed
qed


lemma freeFileBlocks_state:
  "fst (freeFileBlocks s inode fb) = s\<lparr>alloc := alloc (fst (freeFileBlocks s inode fb))\<rparr>"
  by (simp add: freeFileBlocks_def Let_def)

lemma freeFileBlocks_frame:
  "disk (fst (freeFileBlocks s inode fb)) = disk s"
  "inode_table (fst (freeFileBlocks s inode fb)) = inode_table s"
  "snapmgr (fst (freeFileBlocks s inode fb)) = snapmgr s"
  "snap_wired (fst (freeFileBlocks s inode fb)) = snap_wired s"
  by (simp_all add: freeFileBlocks_def Let_def)

lemma single_phase:
  fixes s fb st0
  defines "st1 \<equiv> (if fb \<le> NUM_DIRECT_BLOCKS \<and> single_indirect (snd st0) \<noteq> INVALID_BLOCK
                 then
                   (let st = (case readBlockInternal s (single_indirect (snd st0)) of
                                Inr block_data \<Rightarrow> foldl free_ptr st0 (block_ptrs block_data)
                              | Inl _ \<Rightarrow> st0)
                    in (fst (freeBlock (fst st) (single_indirect (snd st))),
                        drop_block_count ((snd st)\<lparr>single_indirect := INVALID_BLOCK\<rparr>)))
                 else st0)"
  assumes cov: "bitmap_covers a0"
  shows "no_gain a0 (fst st0) b \<Longrightarrow> no_gain a0 (fst st1) b"
    and "released a0 (fst st0) b \<Longrightarrow> released a0 (fst st1) b"
    and "fb \<le> NUM_DIRECT_BLOCKS \<Longrightarrow> single_indirect (snd st0) \<noteq> INVALID_BLOCK \<Longrightarrow>
         readBlockInternal s (single_indirect (snd st0)) = Inr blk \<Longrightarrow>
         b \<in> set (block_ptrs blk) \<Longrightarrow> b \<noteq> INVALID_BLOCK \<Longrightarrow>
         no_gain a0 (fst st0) b \<Longrightarrow> released a0 (fst st1) b"
    and "direct_blocks (snd st1) = direct_blocks (snd st0)"
    and "double_indirect (snd st1) = double_indirect (snd st0)"
    and "isize (snd st1) = isize (snd st0)"
    and "itype (snd st1) = itype (snd st0)"
    and "single_indirect (snd st1) =
           (if fb \<le> NUM_DIRECT_BLOCKS then INVALID_BLOCK else single_indirect (snd st0))"
proof -
  show "no_gain a0 (fst st0) b \<Longrightarrow> no_gain a0 (fst st1) b"
    by (simp add: st1_def Let_def no_gain_step[OF cov] free_ptrs_no_gain[OF cov] split: sum.splits)
  show "released a0 (fst st0) b \<Longrightarrow> released a0 (fst st1) b"
    by (simp add: st1_def Let_def released_step[OF cov] free_ptrs_released[OF cov] split: sum.splits)
  show "fb \<le> NUM_DIRECT_BLOCKS \<Longrightarrow> single_indirect (snd st0) \<noteq> INVALID_BLOCK \<Longrightarrow>
         readBlockInternal s (single_indirect (snd st0)) = Inr blk \<Longrightarrow>
         b \<in> set (block_ptrs blk) \<Longrightarrow> b \<noteq> INVALID_BLOCK \<Longrightarrow>
         no_gain a0 (fst st0) b \<Longrightarrow> released a0 (fst st1) b"
    by (simp add: st1_def Let_def released_step[OF cov] free_ptrs_hit[OF cov])
  show "direct_blocks (snd st1) = direct_blocks (snd st0)"
    "double_indirect (snd st1) = double_indirect (snd st0)"
    "isize (snd st1) = isize (snd st0)"
    "itype (snd st1) = itype (snd st0)"
    "single_indirect (snd st1) =
           (if fb \<le> NUM_DIRECT_BLOCKS then INVALID_BLOCK else single_indirect (snd st0))"
    by (auto simp: st1_def Let_def drop_block_count_def split: sum.splits)
qed

lemma double_phase:
  fixes s fb st1
  defines "st2 \<equiv> (if fb \<le> NUM_DIRECT_BLOCKS + PTRS_PER_BLOCK
                    \<and> double_indirect (snd st1) \<noteq> INVALID_BLOCK
                 then
                   (let st = (case readBlockInternal s (double_indirect (snd st1)) of
                                Inr l1_data \<Rightarrow> foldl (free_l1_entry s) st1 (block_ptrs l1_data)
                              | Inl _ \<Rightarrow> st1)
                    in (fst (freeBlock (fst st) (double_indirect (snd st))),
                        drop_block_count ((snd st)\<lparr>double_indirect := INVALID_BLOCK\<rparr>)))
                 else st1)"
  assumes cov: "bitmap_covers a0"
  shows "no_gain a0 (fst st1) b \<Longrightarrow> no_gain a0 (fst st2) b"
    and "released a0 (fst st1) b \<Longrightarrow> released a0 (fst st2) b"
    and "fb \<le> NUM_DIRECT_BLOCKS + PTRS_PER_BLOCK \<Longrightarrow>
         double_indirect (snd st1) \<noteq> INVALID_BLOCK \<Longrightarrow>
         readBlockInternal s (double_indirect (snd st1)) = Inr l1_data \<Longrightarrow>
         l1 \<in> set (block_ptrs l1_data) \<Longrightarrow> l1 \<noteq> INVALID_BLOCK \<Longrightarrow>
         readBlockInternal s l1 = Inr blk \<Longrightarrow>
         b \<in> set (block_ptrs blk) \<Longrightarrow> b \<noteq> INVALID_BLOCK \<Longrightarrow>
         no_gain a0 (fst st1) b \<Longrightarrow> released a0 (fst st2) b"
    and "direct_blocks (snd st2) = direct_blocks (snd st1)"
    and "single_indirect (snd st2) = single_indirect (snd st1)"
    and "isize (snd st2) = isize (snd st1)"
    and "itype (snd st2) = itype (snd st1)"
    and "double_indirect (snd st2) =
           (if fb \<le> NUM_DIRECT_BLOCKS + PTRS_PER_BLOCK then INVALID_BLOCK
            else double_indirect (snd st1))"
proof -
  show "no_gain a0 (fst st1) b \<Longrightarrow> no_gain a0 (fst st2) b"
    by (simp add: st2_def Let_def no_gain_step[OF cov] free_l1_entries_no_gain[OF cov]
        split: sum.splits)
  show "released a0 (fst st1) b \<Longrightarrow> released a0 (fst st2) b"
    by (simp add: st2_def Let_def released_step[OF cov] free_l1_entries_released[OF cov]
        split: sum.splits)
  show "fb \<le> NUM_DIRECT_BLOCKS + PTRS_PER_BLOCK \<Longrightarrow>
         double_indirect (snd st1) \<noteq> INVALID_BLOCK \<Longrightarrow>
         readBlockInternal s (double_indirect (snd st1)) = Inr l1_data \<Longrightarrow>
         l1 \<in> set (block_ptrs l1_data) \<Longrightarrow> l1 \<noteq> INVALID_BLOCK \<Longrightarrow>
         readBlockInternal s l1 = Inr blk \<Longrightarrow>
         b \<in> set (block_ptrs blk) \<Longrightarrow> b \<noteq> INVALID_BLOCK \<Longrightarrow>
         no_gain a0 (fst st1) b \<Longrightarrow> released a0 (fst st2) b"
    by (simp add: st2_def Let_def released_step[OF cov] free_l1_entries_hit[OF cov])
  show "direct_blocks (snd st2) = direct_blocks (snd st1)"
    "single_indirect (snd st2) = single_indirect (snd st1)"
    "isize (snd st2) = isize (snd st1)"
    "itype (snd st2) = itype (snd st1)"
    "double_indirect (snd st2) =
           (if fb \<le> NUM_DIRECT_BLOCKS + PTRS_PER_BLOCK then INVALID_BLOCK
            else double_indirect (snd st1))"
    by (auto simp: st2_def Let_def drop_block_count_def split: sum.splits)
qed


lemma freeFileBlocks_effect:
  assumes cov: "bitmap_covers (alloc s)" and len: "length (direct_blocks inode) = 12"
  shows "no_gain (alloc s) (alloc (fst (freeFileBlocks s inode fb))) b"
    and "fb \<le> NUM_DIRECT_BLOCKS \<Longrightarrow> fb \<le> k \<Longrightarrow> getFileBlock s inode k = Inr b \<Longrightarrow>
         released (alloc s) (alloc (fst (freeFileBlocks s inode fb))) b"
    and "isize (snd (freeFileBlocks s inode fb)) = isize inode"
    and "itype (snd (freeFileBlocks s inode fb)) = itype inode"
    and "j < 12 \<Longrightarrow> direct_blocks (snd (freeFileBlocks s inode fb)) ! j =
           (if unat fb \<le> j then INVALID_BLOCK else direct_blocks inode ! j)"
    and "fb \<le> NUM_DIRECT_BLOCKS \<Longrightarrow>
           single_indirect (snd (freeFileBlocks s inode fb)) = INVALID_BLOCK \<and>
           double_indirect (snd (freeFileBlocks s inode fb)) = INVALID_BLOCK"
proof -
  define st0 where "st0 = foldl free_direct (alloc s, inode) [unat fb..<unat NUM_DIRECT_BLOCKS]"
  define st1 where "st1 = (if fb \<le> NUM_DIRECT_BLOCKS \<and> single_indirect (snd st0) \<noteq> INVALID_BLOCK
                 then
                   (let st = (case readBlockInternal s (single_indirect (snd st0)) of
                                Inr block_data \<Rightarrow> foldl free_ptr st0 (block_ptrs block_data)
                              | Inl _ \<Rightarrow> st0)
                    in (fst (freeBlock (fst st) (single_indirect (snd st))),
                        drop_block_count ((snd st)\<lparr>single_indirect := INVALID_BLOCK\<rparr>)))
                 else st0)"
  define st2 where "st2 = (if fb \<le> NUM_DIRECT_BLOCKS + PTRS_PER_BLOCK
                    \<and> double_indirect (snd st1) \<noteq> INVALID_BLOCK
                 then
                   (let st = (case readBlockInternal s (double_indirect (snd st1)) of
                                Inr l1_data \<Rightarrow> foldl (free_l1_entry s) st1 (block_ptrs l1_data)
                              | Inl _ \<Rightarrow> st1)
                    in (fst (freeBlock (fst st) (double_indirect (snd st))),
                        drop_block_count ((snd st)\<lparr>double_indirect := INVALID_BLOCK\<rparr>)))
                 else st1)"
  have r: "freeFileBlocks s inode fb = (s\<lparr>alloc := fst st2\<rparr>, snd st2)"
    unfolding freeFileBlocks_def st2_def st1_def st0_def Let_def ..
  note p1 = single_phase[OF cov, where ?st0.0=st0 and fb=fb and s=s, folded st1_def]
  note p2 = double_phase[OF cov, where ?st1.0=st1 and fb=fb and s=s, folded st2_def]
  have bd: "\<forall>x \<in> set [unat fb..<unat NUM_DIRECT_BLOCKS]. x < length (direct_blocks (snd (alloc s, inode)))"
    by (simp add: len NUM_DIRECT_BLOCKS_def)
  have ng0: "no_gain (alloc s) (fst st0) c" for c
    unfolding st0_def by (rule free_directs_no_gain[OF cov]) (simp add: no_gain_refl)
  have ng1: "no_gain (alloc s) (fst st1) c" for c
    by (rule p1(1)[OF ng0])
  show "no_gain (alloc s) (alloc (fst (freeFileBlocks s inode fb))) b"
    by (simp add: r p2(1)[OF ng1])
  have f0: "single_indirect (snd st0) = single_indirect inode"
    "double_indirect (snd st0) = double_indirect inode"
    "isize (snd st0) = isize inode" "itype (snd st0) = itype inode"
    by (simp_all add: st0_def)
  show "isize (snd (freeFileBlocks s inode fb)) = isize inode"
    "itype (snd (freeFileBlocks s inode fb)) = itype inode"
    by (simp_all add: r p2 p1 f0)
  show "direct_blocks (snd (freeFileBlocks s inode fb)) ! j =
           (if unat fb \<le> j then INVALID_BLOCK else direct_blocks inode ! j)" if "j < 12"
  proof -
    have "direct_blocks (snd st0) ! j =
        (if j \<in> set [unat fb..<unat NUM_DIRECT_BLOCKS] then INVALID_BLOCK
         else direct_blocks inode ! j)"
      unfolding st0_def using free_directs_nth[OF bd, of j] by simp
    with that show ?thesis by (simp add: r p2 p1 NUM_DIRECT_BLOCKS_def)
  qed
  show "single_indirect (snd (freeFileBlocks s inode fb)) = INVALID_BLOCK \<and>
           double_indirect (snd (freeFileBlocks s inode fb)) = INVALID_BLOCK"
    if le: "fb \<le> NUM_DIRECT_BLOCKS"
  proof -
    from le have "fb \<le> NUM_DIRECT_BLOCKS + PTRS_PER_BLOCK"
      by (simp add: NUM_DIRECT_BLOCKS_def PTRS_PER_BLOCK_def word_le_nat_alt)
    with le show ?thesis by (simp add: r p2 p1)
  qed
  show "released (alloc s) (alloc (fst (freeFileBlocks s inode fb))) b"
    if le: "fb \<le> NUM_DIRECT_BLOCKS" and fk: "fb \<le> k" and g: "getFileBlock s inode k = Inr b"
  proof -
    from le have le2: "fb \<le> NUM_DIRECT_BLOCKS + PTRS_PER_BLOCK"
      by (simp add: NUM_DIRECT_BLOCKS_def PTRS_PER_BLOCK_def word_le_nat_alt)
    from getFileBlock_Inr_cases[OF g] have nin: "b \<noteq> INVALID_BLOCK" by simp
    from getFileBlock_Inr_cases[OF g] consider
      (direct) "k < NUM_DIRECT_BLOCKS" "direct_blocks inode ! unat k = b"
      | (single) blk where "single_indirect inode \<noteq> INVALID_BLOCK"
          "readBlockInternal s (single_indirect inode) = Inr blk" "b \<in> set (block_ptrs blk)"
      | (double) l1_data l1 blk where "double_indirect inode \<noteq> INVALID_BLOCK"
          "readBlockInternal s (double_indirect inode) = Inr l1_data"
          "l1 \<in> set (block_ptrs l1_data)" "l1 \<noteq> INVALID_BLOCK"
          "readBlockInternal s l1 = Inr blk" "b \<in> set (block_ptrs blk)"
      by blast
    then have "released (alloc s) (fst st2) b"
    proof cases
      case direct
      from direct(1) fk have kin: "unat k \<in> set [unat fb..<unat NUM_DIRECT_BLOCKS]"
        by (simp add: word_le_nat_alt word_less_nat_alt)
      have "released (alloc s) (fst st0) b"
        unfolding st0_def
        by (rule free_directs_hit[OF cov nin kin bd]) (simp_all add: direct(2) no_gain_refl)
      then show ?thesis by (intro p2(2) p1(2))
    next
      case single
      have "released (alloc s) (fst st1) b"
        by (rule p1(3)[OF le _ _ single(3) nin ng0]) (simp_all add: f0 single)
      then show ?thesis by (rule p2(2))
    next
      case double
      show ?thesis
        by (rule p2(3)[OF le2 _ _ double(3,4,5,6) nin ng1]) (simp_all add: p1 f0 double)
    qed
    then show ?thesis by (simp add: r)
  qed
qed


lemma read_loop_holes:
  assumes holes: "\<forall>k. offset div BLOCK_SIZE \<le> k \<longrightarrow> (\<exists>e. getFileBlock s inode k = Inl e)"
    and nw: "unat offset + len < 2 ^ 32"
  shows "br \<le> len \<Longrightarrow> read_loop s inode offset len br data = Inr (data @ replicate (len - br) 0)"
proof (induction "len - br" arbitrary: br data rule: less_induct)
  case less
  show ?case
  proof (cases "br < len")
    case False
    with less.prems have eq: "br = len" by simp
    show ?thesis unfolding eq by (simp add: read_loop.simps[of s inode offset len len data])
  next
    case True
    define co where "co = offset + (of_nat br :: 32 word)"
    define tr where "tr = min (unat BLOCK_SIZE - unat (co mod BLOCK_SIZE)) (len - br)"
    have ubr: "unat (of_nat br :: 32 word) = br"
      using True nw by (simp add: unat_of_nat)
    have uco: "unat co = unat offset + br"
      unfolding co_def using True nw ubr by (simp add: unat_add_lem[THEN iffD1])
    have "unat (offset div BLOCK_SIZE) \<le> unat (co div BLOCK_SIZE)"
      by (simp add: unat_div_distrib uco div_le_mono)
    then have "offset div BLOCK_SIZE \<le> co div BLOCK_SIZE" by (simp add: word_le_nat_alt)
    with holes obtain e where e: "getFileBlock s inode (co div BLOCK_SIZE) = Inl e" by blast
    have "unat (co mod BLOCK_SIZE) < unat BLOCK_SIZE"
      by (simp add: BLOCK_SIZE_def unat_mod_distrib)
    with True have trpos: "0 < tr" and trle: "br + tr \<le> len" by (simp_all add: tr_def)
    have step: "read_loop s inode offset len br data =
        read_loop s inode offset len (br + tr) (data @ replicate tr 0)"
      using True e by (simp add: read_loop.simps[of s inode offset len br data] Let_def
          co_def[symmetric] tr_def[symmetric])
    have "read_loop s inode offset len (br + tr) (data @ replicate tr 0) =
        Inr ((data @ replicate tr 0) @ replicate (len - (br + tr)) 0)"
      using trpos trle True by (intro less.hyps) simp_all
    also have "(data @ replicate tr 0) @ replicate (len - (br + tr)) (0::8 word) =
        data @ replicate (len - br) 0"
      using trle by (simp add: replicate_add[symmetric])
    finally show ?thesis using step by simp
  qed
qed


lemma readInode_Inr:
  assumes "readInode s i = Inr inode"
  shows "loaded (alloc s) \<and> i < total_inodes (superblock (alloc s)) \<and> is_open (disk s) \<and>
     validateBlockNo (disk s) (getInodeBlock (alloc s) i) \<and>
     \<not> read_fault (disk s) (getInodeBlock (alloc s) i) \<and> inode = inode_table s i"
  using assms
  by (auto simp: readInode_def readBlockInternal_def disk_readBlock_def not_le
      split: if_splits sum.splits)

lemma getInodeBlock_layout:
  "same_layout a a' \<Longrightarrow> getInodeBlock a' i = getInodeBlock a i"
  by (simp add: same_layout_def getInodeBlock_def)

lemma inode_access_after_read:
  assumes rd: "readInode s i = Inr inode" and lay: "same_layout (alloc s) (alloc s1)"
    and dk: "disk s1 = disk s"
  shows "loaded (alloc s1)" "\<not> total_inodes (superblock (alloc s1)) \<le> i"
    "getInodeBlock (alloc s1) i = getInodeBlock (alloc s) i"
    "readBlockInternal s1 (getInodeBlock (alloc s) i) = Inr (file_blocks (disk s) (getInodeBlock (alloc s) i))"
    "validateBlockNo (disk s) (getInodeBlock (alloc s) i)" "is_open (disk s)"
proof -
  note r = readInode_Inr[OF rd]
  from r lay show "loaded (alloc s1)" by (simp add: same_layout_def)
  from r lay show "\<not> total_inodes (superblock (alloc s1)) \<le> i"
    by (simp add: same_layout_def not_le)
  show "getInodeBlock (alloc s1) i = getInodeBlock (alloc s) i"
    by (rule getInodeBlock_layout[OF lay])
  from r show "readBlockInternal s1 (getInodeBlock (alloc s) i) =
      Inr (file_blocks (disk s) (getInodeBlock (alloc s) i))"
    by (simp add: readBlockInternal_def disk_readBlock_def dk)
  from r show "validateBlockNo (disk s) (getInodeBlock (alloc s) i)" by simp
  from r show "is_open (disk s)" by simp
qed

lemma writeInode_after_read:
  assumes rd: "readInode s i = Inr inode" and lay: "same_layout (alloc s) (alloc s1)"
    and dk: "disk s1 = disk s"
  shows "writeInode s1 i i2 =
     (if write_fault (disk s) (getInodeBlock (alloc s) i) then (s1, E_IO)
      else (s1\<lparr>inode_table := (inode_table s1)(i := i2)\<rparr>, OK))"
  unfolding writeInode_def
  by (simp add: inode_access_after_read[OF rd lay dk] dk)

lemma readInode_after_read:
  assumes rd: "readInode s i = Inr inode" and lay: "same_layout (alloc s) (alloc s1)"
    and dk: "disk s1 = disk s"
  shows "readInode s1 i = Inr (inode_table s1 i)"
  unfolding readInode_def
  by (simp add: inode_access_after_read[OF rd lay dk])

lemma getIndirectBlock_disk:
  "disk s1 = disk s \<Longrightarrow> getIndirectBlock s1 b i = getIndirectBlock s b i"
  by (simp add: getIndirectBlock_def readBlockInternal_def)

lemma getFileBlock_disk:
  assumes dk: "disk s1 = disk s"
  shows "getFileBlock s1 inode k = getFileBlock s inode k"
  unfolding getFileBlock_def by (simp only: getIndirectBlock_disk[OF dk])

lemma getFileBlock_pointers:
  assumes "direct_blocks i2 = direct_blocks i1" "single_indirect i2 = single_indirect i1"
    "double_indirect i2 = double_indirect i1"
  shows "getFileBlock s i2 k = getFileBlock s i1 k"
  unfolding getFileBlock_def by (simp only: assms)


lemma getFileBlock_truncated:
  assumes nb: "nb \<le> NUM_DIRECT_BLOCKS"
    and d: "\<forall>j<12. direct_blocks i' ! j = (if unat nb \<le> j then INVALID_BLOCK else direct_blocks i ! j)"
    and si: "single_indirect i' = INVALID_BLOCK" and di: "double_indirect i' = INVALID_BLOCK"
  shows "nb \<le> k \<Longrightarrow> \<exists>e. getFileBlock s' i' k = Inl e"
    and "k < nb \<Longrightarrow> getFileBlock s' i' k = getFileBlock s i k"
proof -
  show "\<exists>e. getFileBlock s' i' k = Inl e" if le: "nb \<le> k"
  proof (cases "k < NUM_DIRECT_BLOCKS")
    case True
    then have "unat k < 12" by (simp add: NUM_DIRECT_BLOCKS_def word_less_nat_alt)
    with d le have "direct_blocks i' ! unat k = INVALID_BLOCK" by (simp add: word_le_nat_alt)
    with True show ?thesis by (simp add: getFileBlock_def)
  next
    case False
    then show ?thesis by (simp add: getFileBlock_def si di Let_def)
  qed
  show "getFileBlock s' i' k = getFileBlock s i k" if lt: "k < nb"
  proof -
    from lt nb have k: "k < NUM_DIRECT_BLOCKS" by simp
    then have "unat k < 12" by (simp add: NUM_DIRECT_BLOCKS_def word_less_nat_alt)
    with d lt have "direct_blocks i' ! unat k = direct_blocks i ! unat k"
      by (simp add: word_less_nat_alt)
    with k show ?thesis by (simp add: getFileBlock_def)
  qed
qed

lemma truncate_unfold:
  assumes res: "resolvePath s path = Inr inode_id"
    and rd: "readInode s inode_id = Inr inode"
    and reg: "isRegularFile inode"
  shows "truncate s now path new_size =
     (let m = (if isize inode \<le> new_size then (s, inode)
               else if (new_size + BLOCK_SIZE - 1) div BLOCK_SIZE
                        < (isize inode + BLOCK_SIZE - 1) div BLOCK_SIZE
                    then freeFileBlocks s inode ((new_size + BLOCK_SIZE - 1) div BLOCK_SIZE)
                    else (s, inode))
      in writeInode (fst m) inode_id (updateModifyTime now ((snd m)\<lparr>isize := new_size\<rparr>)))"
  by (simp add: truncate_def res rd reg Let_def split: prod.splits)

lemma read_extended_zeros:
  assumes rd: "readInode s1 i = Inr inode1" and reg: "isRegularFile inode1"
    and lt: "offset < isize inode1"
    and holes: "\<forall>k. offset div BLOCK_SIZE \<le> k \<longrightarrow> (\<exists>e. getFileBlock s1 inode1 k = Inl e)"
  shows "snd (readFileByInode s1 now' i offset 0) = Inr (replicate (unat (isize inode1 - offset)) 0)"
proof -
  from lt have "unat (isize inode1 - offset) = unat (isize inode1) - unat offset"
    by (simp add: unat_sub word_less_nat_alt word_le_nat_alt)
  moreover have "unat (isize inode1) < 2 ^ 32" using unsigned_less[of "isize inode1"] by simp
  ultimately have nw: "unat offset + unat (isize inode1 - offset) < 2 ^ 32"
    using lt by (simp add: word_less_nat_alt)
  have "read_loop s1 inode1 offset (unat (isize inode1 - offset)) 0 [] =
      Inr ([] @ replicate (unat (isize inode1 - offset) - 0) 0)"
    by (rule read_loop_holes[OF holes nw]) simp
  with lt show ?thesis
    by (simp add: readFileByInode_def rd reg Let_def not_le[symmetric])
qed


text \<open>What \<open>truncate\<close> does on a regular file reached by \<open>path\<close>. It returns \<open>OK\<close>
  unless the write of the inode faults, writes no data block and allocates no block, and on
  \<open>OK\<close> the inode has the new size. When the new size is smaller and the new block count
  \<open>(new_size + 1023) div 1024\<close> is below the old one and at most 12, every file block with an
  index from the new block count on is released: it is deallocated unless it was shared, in
  which case it has lost a reference, and on \<open>OK\<close> the file has no block at those indices
  and keeps the blocks below. When the new size is at least the old size, the allocator and
  the snapshot manager are unchanged, on \<open>OK\<close> the inode differs in size and time stamps
  only, and a read from an offset of the new region to the end of the file returns zero bytes
  when the file has no block pointer from the block of that offset on.\<close>

lemma truncate_effect:
  assumes res: "resolvePath s path = Inr inode_id"
    and rd: "readInode s inode_id = Inr inode"
    and reg: "isRegularFile inode"
    and len: "length (direct_blocks inode) = 12"
    and cov: "bitmap_covers (alloc s)"
  shows
   "let r = truncate s now path new_size; s' = fst r; inode' = inode_table s' inode_id;
        new_blocks = (new_size + BLOCK_SIZE - 1) div BLOCK_SIZE;
        old_blocks = (isize inode + BLOCK_SIZE - 1) div BLOCK_SIZE
    in snd r = (if write_fault (disk s) (getInodeBlock (alloc s) inode_id) then E_IO else OK) \<and>
       disk s' = disk s \<and>
       (\<forall>b. isBlockAllocated (alloc s') b \<longrightarrow> isBlockAllocated (alloc s) b) \<and>
       (snd r = OK \<longrightarrow>
          readInode s' inode_id = Inr inode' \<and> isRegularFile inode' \<and> isize inode' = new_size) \<and>
       (new_size < isize inode \<and> new_blocks < old_blocks \<and> new_blocks \<le> NUM_DIRECT_BLOCKS \<longrightarrow>
          (\<forall>k b. new_blocks \<le> k \<and> getFileBlock s inode k = Inr b \<and>
                 isBlockAllocated (alloc s') b \<longrightarrow>
                 1 < getBlockRef (alloc s) b \<and> getBlockRef (alloc s') b < getBlockRef (alloc s) b) \<and>
          (snd r = OK \<longrightarrow>
             (\<forall>k. new_blocks \<le> k \<longrightarrow> (\<exists>e. getFileBlock s' inode' k = Inl e)) \<and>
             (\<forall>k. k < new_blocks \<longrightarrow> getFileBlock s' inode' k = getFileBlock s inode k))) \<and>
       (isize inode \<le> new_size \<longrightarrow>
          alloc s' = alloc s \<and> snapmgr s' = snapmgr s \<and>
          (snd r = OK \<longrightarrow>
             inode_table s' = (inode_table s)
               (inode_id := inode\<lparr>isize := new_size, modify_time := now, access_time := now\<rparr>)) \<and>
          (\<forall>offset. snd r = OK \<and> offset < new_size \<and>
             (\<forall>k. offset div BLOCK_SIZE \<le> k \<longrightarrow> (\<exists>e. getFileBlock s inode k = Inl e)) \<longrightarrow>
             snd (readFileByInode s' now' inode_id offset 0) =
               Inr (replicate (unat (new_size - offset)) 0)))"
proof -
  define nb where "nb = (new_size + BLOCK_SIZE - 1) div BLOCK_SIZE"
  define ob where "ob = (isize inode + BLOCK_SIZE - 1) div BLOCK_SIZE"
  define m where "m = (if isize inode \<le> new_size then (s, inode)
               else if nb < ob then freeFileBlocks s inode nb else (s, inode))"
  define i2 where "i2 = updateModifyTime now ((snd m)\<lparr>isize := new_size\<rparr>)"
  define r where "r = truncate s now path new_size"
  define s' where "s' = fst r"
  have r: "r = writeInode (fst m) inode_id i2"
    unfolding r_def i2_def m_def nb_def ob_def
    by (simp add: truncate_unfold[OF res rd reg] Let_def)
  have ng: "no_gain (alloc s) (alloc (fst m)) b" for b
    unfolding m_def by (simp add: no_gain_refl freeFileBlocks_effect(1)[OF cov len])
  then have lay: "same_layout (alloc s) (alloc (fst m))" by (simp add: no_gain_def)
  have dk: "disk (fst m) = disk s" and tbl: "inode_table (fst m) = inode_table s"
    and sm: "snapmgr (fst m) = snapmgr s"
    unfolding m_def by (simp_all add: freeFileBlocks_frame)
  have ty: "itype (snd m) = itype inode"
    unfolding m_def by (simp add: freeFileBlocks_effect(4)[OF cov len])
  have w: "r = (if write_fault (disk s) (getInodeBlock (alloc s) inode_id) then (fst m, E_IO)
      else ((fst m)\<lparr>inode_table := (inode_table s)(inode_id := i2)\<rparr>, OK))"
    unfolding r by (simp add: writeInode_after_read[OF rd lay dk] tbl)
  have c1: "snd r = (if write_fault (disk s) (getInodeBlock (alloc s) inode_id) then E_IO else OK)"
    by (simp add: w)
  have al: "alloc s' = alloc (fst m)" and c2: "disk s' = disk s" and sm': "snapmgr s' = snapmgr s"
    unfolding s'_def by (simp_all add: w dk sm)
  have c3: "\<forall>b. isBlockAllocated (alloc s') b \<longrightarrow> isBlockAllocated (alloc s) b"
    using ng by (simp add: al no_gain_def)
  have ok: "s' = (fst m)\<lparr>inode_table := (inode_table s)(inode_id := i2)\<rparr>" if "snd r = OK"
    using that unfolding s'_def by (simp add: w split: if_splits)
  have i': "inode_table s' inode_id = i2" if "snd r = OK"
    by (simp add: ok[OF that])
  have lay': "same_layout (alloc s) (alloc s')" using lay by (simp add: al)
  have c4: "readInode s' inode_id = Inr (inode_table s' inode_id) \<and>
      isRegularFile (inode_table s' inode_id) \<and> isize (inode_table s' inode_id) = new_size"
    if o: "snd r = OK"
    using reg ty
    by (simp add: readInode_after_read[OF rd lay' c2] i'[OF o] i2_def updateModifyTime_def
        isRegularFile_def)
  have c5a: "1 < getBlockRef (alloc s) b \<and> getBlockRef (alloc s') b < getBlockRef (alloc s) b"
    if sh: "new_size < isize inode" "nb < ob" "nb \<le> NUM_DIRECT_BLOCKS"
      and k: "nb \<le> k" "getFileBlock s inode k = Inr b" "isBlockAllocated (alloc s') b" for k b
  proof -
    from sh have m: "m = freeFileBlocks s inode nb" by (simp add: m_def not_le[symmetric])
    have "released (alloc s) (alloc (fst m)) b"
      unfolding m by (rule freeFileBlocks_effect(2)[OF cov len sh(3) k(1,2)])
    with k(3) show ?thesis by (simp add: released_def al)
  qed
  have c5b: "(\<forall>k. nb \<le> k \<longrightarrow> (\<exists>e. getFileBlock s' (inode_table s' inode_id) k = Inl e)) \<and>
      (\<forall>k. k < nb \<longrightarrow> getFileBlock s' (inode_table s' inode_id) k = getFileBlock s inode k)"
    if sh: "new_size < isize inode" "nb < ob" "nb \<le> NUM_DIRECT_BLOCKS" and o: "snd r = OK"
  proof -
    from sh have m: "m = freeFileBlocks s inode nb" by (simp add: m_def not_le[symmetric])
    have d: "\<forall>j<12. direct_blocks i2 ! j =
        (if unat nb \<le> j then INVALID_BLOCK else direct_blocks inode ! j)"
      by (simp add: i2_def updateModifyTime_def m freeFileBlocks_effect(5)[OF cov len])
    have si: "single_indirect i2 = INVALID_BLOCK" and di: "double_indirect i2 = INVALID_BLOCK"
      using freeFileBlocks_effect(6)[OF cov len sh(3)]
      by (simp_all add: i2_def updateModifyTime_def m)
    show ?thesis
      unfolding i'[OF o]
      using getFileBlock_truncated(1)[OF sh(3) d si di, where s'=s'] getFileBlock_truncated(2)[OF sh(3) d si di, where s'=s' and s=s] by blast
  qed
  have c6: "alloc s' = alloc s" if "isize inode \<le> new_size"
    using that by (simp add: al m_def)
  have c6b: "inode_table s' = (inode_table s)
       (inode_id := inode\<lparr>isize := new_size, modify_time := now, access_time := now\<rparr>)"
    if ex: "isize inode \<le> new_size" and o: "snd r = OK"
    using ex by (simp add: ok[OF o] i2_def m_def updateModifyTime_def)
  have c6c: "snd (readFileByInode s' now' inode_id offset 0) =
      Inr (replicate (unat (new_size - offset)) 0)"
    if ex: "isize inode \<le> new_size" and o: "snd r = OK" and lt: "offset < new_size"
      and holes: "\<forall>k. offset div BLOCK_SIZE \<le> k \<longrightarrow> (\<exists>e. getFileBlock s inode k = Inl e)"
    for offset
  proof -
    from ex have i2: "i2 = inode\<lparr>isize := new_size, modify_time := now, access_time := now\<rparr>"
      by (simp add: i2_def m_def updateModifyTime_def)
    have g: "getFileBlock s' i2 k = getFileBlock s inode k" for k
      unfolding getFileBlock_disk[OF c2] by (rule getFileBlock_pointers) (simp_all add: i2)
    note c4' = c4[OF o, unfolded i'[OF o]]
    have "snd (readFileByInode s' now' inode_id offset 0) =
        Inr (replicate (unat (isize i2 - offset)) 0)"
      by (rule read_extended_zeros) (use c4' lt holes in \<open>simp_all add: g\<close>)
    with c4' show ?thesis by simp
  qed
  show ?thesis
    unfolding Let_def r_def[symmetric] s'_def[symmetric] nb_def[symmetric] ob_def[symmetric]
    using c1 c2 c3 c4 c5a c5b c6 sm' c6b c6c by blast
qed


lemma truncate_keep_result:
  assumes res: "resolvePath s path = Inr inode_id"
    and rd: "readInode s inode_id = Inr inode"
    and reg: "isRegularFile inode"
    and keep: "isize inode \<le> new_size \<or>
       \<not> (new_size + BLOCK_SIZE - 1) div BLOCK_SIZE < (isize inode + BLOCK_SIZE - 1) div BLOCK_SIZE"
  shows "truncate s now path new_size =
     (if write_fault (disk s) (getInodeBlock (alloc s) inode_id) then (s, E_IO)
      else (s\<lparr>inode_table := (inode_table s)
              (inode_id := inode\<lparr>isize := new_size, modify_time := now, access_time := now\<rparr>)\<rparr>, OK))"
proof -
  have "truncate s now path new_size =
      writeInode s inode_id (updateModifyTime now (inode\<lparr>isize := new_size\<rparr>))"
    using keep by (auto simp: truncate_unfold[OF res rd reg] Let_def)
  then show ?thesis
    by (simp add: writeInode_after_read[OF rd same_layout_refl refl] updateModifyTime_def)
qed

lemma freeBlock_other:
  assumes ne: "b \<noteq> p"
  shows "isBlockAllocated (fst (freeBlock a p)) b = isBlockAllocated a b"
    and "getBlockRef (fst (freeBlock a p)) b = getBlockRef a b"
proof -
  have ne': "absoluteToDataBlock a p \<noteq> absoluteToDataBlock a b"
    using ne by (simp add: absoluteToDataBlock_def)
  have both: "isBlockAllocated (fst (freeBlock a p)) b = isBlockAllocated a b \<and>
     getBlockRef (fst (freeBlock a p)) b = getBlockRef a b"
  proof (cases "isBlockAllocated a p")
    case False
    then show ?thesis by (simp add: freeBlock_unallocated)
  next
    case True
    show ?thesis
    proof (cases "1 < getBlockRef a p")
      case sh: True
      show ?thesis
        unfolding freeBlock_shared[OF True sh] fst_conv isBlockAllocated_refcount_upd
        using data_index_inj[OF ne, of a] by (simp add: getBlockRef_def Let_def)
    next
      case la: False
      let ?a1 = "if refcount_enabled a \<and> unat (absoluteToDataBlock a p) < length (block_refcount a)
          then a\<lparr>block_refcount := (block_refcount a)[unat (absoluteToDataBlock a p) := 0]\<rparr>
          else a"
      have a1: "loaded ?a1 = loaded a" "isValidDataBlock ?a1 b = isValidDataBlock a b"
        "absoluteToDataBlock ?a1 b = absoluteToDataBlock a b"
        "data_block_count (superblock ?a1) = data_block_count (superblock a)"
        by simp_all
      have "isBlockAllocated (fst (freeBlock a p)) b = isBlockAllocated a b"
        unfolding freeBlock_last[OF True la] fst_conv isBlockAllocated_cleared a1
        by (auto simp: isBlockAllocated_def bitmap_get_clear_other[OF ne'])
      moreover have "getBlockRef (fst (freeBlock a p)) b = getBlockRef a b"
        unfolding freeBlock_last[OF True la] fst_conv getBlockRef_cleared
        using data_index_inj[OF ne, of a] by (simp add: getBlockRef_def Let_def)
      ultimately show ?thesis by simp
    qed
  qed
  from both show "isBlockAllocated (fst (freeBlock a p)) b = isBlockAllocated a b"
    and "getBlockRef (fst (freeBlock a p)) b = getBlockRef a b" by simp_all
qed

lemma free_ptrs_invalid: "foldl free_ptr st (replicate n INVALID_BLOCK) = st"
  by (induction n) (simp_all add: free_ptr_def)

lemma free_l1_entries_invalid: "foldl (free_l1_entry s) st (replicate n INVALID_BLOCK) = st"
  by (induction n) (simp_all add: free_l1_entry_def)

lemma drop_prefix: "length xs = n \<Longrightarrow> drop (n + m) (xs @ ys) = drop m ys"
  by simp

lemma block_ptrs_one:
  "block_ptrs (pad_block [x0, x1, x2, x3] 0xFF) = le32 [x0, x1, x2, x3] # replicate 255 INVALID_BLOCK"
proof (rule nth_equalityI)
  show "length (block_ptrs (pad_block [x0, x1, x2, x3] 0xFF)) =
      length (le32 [x0, x1, x2, x3] # replicate 255 INVALID_BLOCK)"
    by (simp add: block_ptrs_def PTRS_PER_BLOCK_def)
next
  fix i assume "i < length (block_ptrs (pad_block [x0, x1, x2, x3] 0xFF))"
  then have i: "i < 256" by (simp add: block_ptrs_def PTRS_PER_BLOCK_def)
  show "block_ptrs (pad_block [x0, x1, x2, x3] 0xFF) ! i =
      (le32 [x0, x1, x2, x3] # replicate 255 INVALID_BLOCK) ! i"
  proof (cases i)
    case 0
    then show ?thesis
      by (simp add: block_ptrs_def PTRS_PER_BLOCK_def pad_block_def get_ptr_def)
  next
    case (Suc j)
    with i have j: "j < 255" by simp
    have "drop (4 * Suc j) ([x0, x1, x2, x3] @ replicate 1020 (0xFF::8 word)) =
        replicate (1020 - 4 * j) 0xFF"
      using drop_prefix[of "[x0, x1, x2, x3]" 4 "4 * j" "replicate 1020 (0xFF::8 word)"]
      by (simp add: add.commute)
    moreover have "4 \<le> 1020 - 4 * j" using j by simp
    ultimately have "get_ptr (pad_block [x0, x1, x2, x3] 0xFF) (Suc j) = INVALID_BLOCK"
      by (simp add: get_ptr_def pad_block_def le32_replicate INVALID_BLOCK_def)
    with i j Suc show ?thesis
      by (simp add: block_ptrs_def PTRS_PER_BLOCK_def)
  qed
qed


lemma le32_small: "le32 [28, 0, 0, 0] = 28" "le32 [29, 0, 0, 0] = 29"
  by simp_all

lemma ex_l1_ptrs:
  "block_ptrs (pad_block (enc32 28) 0xFF) = 28 # replicate 255 INVALID_BLOCK"
  "block_ptrs (pad_block (enc32 29) 0xFF) = 29 # replicate 255 INVALID_BLOCK"
  unfolding enc32_vals block_ptrs_one le32_small by (rule refl)+

lemma ex_g_free13:
  "alloc (fst (freeFileBlocks ex_fs ex_g_inode 13)) =
     fst (freeBlock (fst (freeBlock (fst (freeBlock ex_alloc 29)) 28)) 27)"
  "single_indirect (snd (freeFileBlocks ex_fs ex_g_inode 13)) = 24"
proof -
  have up: "[unat (13::32 word)..<unat NUM_DIRECT_BLOCKS] = []"
    by (simp add: NUM_DIRECT_BLOCKS_def)
  have c1: "\<not> (13::32 word) \<le> NUM_DIRECT_BLOCKS"
    by (simp add: NUM_DIRECT_BLOCKS_def word_le_nat_alt)
  have c2: "(13::32 word) \<le> NUM_DIRECT_BLOCKS + PTRS_PER_BLOCK"
    by (simp add: NUM_DIRECT_BLOCKS_def PTRS_PER_BLOCK_def word_le_nat_alt)
  have g: "single_indirect ex_g_inode = 24" "double_indirect ex_g_inode = 27"
    by (simp_all add: ex_g_inode_def)
  have ne: "(27::32 word) \<noteq> INVALID_BLOCK" "(28::32 word) \<noteq> INVALID_BLOCK"
    "(29::32 word) \<noteq> INVALID_BLOCK"
    by (simp_all add: INVALID_BLOCK_def)
  show "alloc (fst (freeFileBlocks ex_fs ex_g_inode 13)) =
     fst (freeBlock (fst (freeBlock (fst (freeBlock ex_alloc 29)) 28)) 27)"
    "single_indirect (snd (freeFileBlocks ex_fs ex_g_inode 13)) = 24"
    unfolding freeFileBlocks_def up foldl_Nil Let_def
    by (simp_all add: c1 c2 g ne ex_reads ex_l1_ptrs free_l1_entries_invalid free_l1_entry_def
        free_ptrs_invalid free_ptr_def ex_fs_def[THEN arg_cong, of alloc])
qed

lemma ex_alloc_26:
  "isBlockAllocated ex_alloc 26" "getBlockRef ex_alloc 26 = 1"
  "isBlockAllocated ex_alloc 29" "getBlockRef ex_alloc 29 = 1"
  "isBlockAllocated ex_alloc 17" "getBlockRef ex_alloc 17 = 1"
  by (simp_all add: ex_alloc_def ex_sb_def isBlockAllocated_def getBlockRef_def
      isValidDataBlock_def absoluteToDataBlock_def bitmap_get_def Let_def
      word_le_nat_alt word_less_nat_alt bit_numeral_word_iff)

lemma ex_g_leak:
  "isBlockAllocated (alloc (fst (freeFileBlocks ex_fs ex_g_inode 13))) 26"
  "getBlockRef (alloc (fst (freeFileBlocks ex_fs ex_g_inode 13))) 26 = 1"
  by (simp_all add: ex_g_free13 freeBlock_other ex_alloc_26)


lemma ex_readInode_any:
  assumes a: "alloc s = ex_alloc" and d: "disk s = ex_disk" and i: "i < 16"
  shows "readInode s i = Inr (inode_table s i)"
proof -
  from i have "unat (i div 8) < 2" by (simp add: unat_div_distrib word_less_nat_alt)
  then have "unat (3 + i div 8) < 40" by (simp add: unat_word_ariths)
  then have "3 + i div 8 < 40" by (simp add: word_less_nat_alt)
  with i show ?thesis
    by (simp add: readInode_def a d ex_alloc_def ex_sb_def readBlockInternal_def
        disk_readBlock_def ex_disk_def validateBlockNo_def getInodeBlock_def INODES_PER_BLOCK_def
        not_le[symmetric])
qed

lemma ex_resolve_any:
  assumes a: "alloc s = ex_alloc" and d: "disk s = ex_disk"
    and r: "inode_table s 0 = ex_dir_inode 8 320 3"
  shows "resolvePath s ''/f'' = Inr 1" "resolvePath s ''/g'' = Inr 3"
proof -
  have ri: "readInode s 0 = Inr (ex_dir_inode 8 320 3)"
    using ex_readInode_any[OF a d, of 0] by (simp add: r)
  have nb: "[0..<unat (dir_num_blocks (ex_dir_inode 8 320 3))] = [0]"
    by (simp add: dir_num_blocks_def ex_dir_inode_def BLOCK_SIZE_def Let_def)
  have gb: "getFileBlock s (ex_dir_inode 8 320 3) 0 = Inr 8"
    by (simp add: getFileBlock_def ex_dir_inode_def ex_free_inode_def no_direct_def
        NUM_DIRECT_BLOCKS_def INVALID_BLOCK_def Let_def)
  have rb: "readBlockInternal s 8 = Inr ex_root_block"
    by (simp add: readBlockInternal_def disk_readBlock_def d ex_disk_def ex_blocks_def
        validateBlockNo_def word_less_nat_alt)
  have dir: "isDirectory (ex_dir_inode 8 320 3)"
    by (simp add: isDirectory_def ex_dir_inode_def)
  have lk: "lookupInternal s 0 ''f'' = Inr 1" "lookupInternal s 0 ''g'' = Inr 3"
    by (simp_all add: lookupInternal_def ri dir nb gb rb ex_root_entries)
  show "resolvePath s ''/f'' = Inr 1" "resolvePath s ''/g'' = Inr 3"
    by (simp_all add: resolvePath_def norm_f split_f ri lk dir ROOT_INODE_def)
qed

lemma ex_no_write_fault: "\<not> write_fault (disk ex_fs) b"
  by (simp add: ex_fs_def ex_disk_def)

lemma ex_f_shrunk:
  "truncate ex_fs now ''/f'' 5 =
     (ex_fs\<lparr>inode_table := (inode_table ex_fs)
        (1 := ex_f_inode\<lparr>isize := 5, modify_time := now, access_time := now\<rparr>)\<rparr>, OK)"
proof -
  have reg: "isRegularFile ex_f_inode" by (simp add: isRegularFile_def ex_f_inode_def)
  have keep: "isize ex_f_inode \<le> 5 \<or>
       \<not> (5 + BLOCK_SIZE - 1) div BLOCK_SIZE < (isize ex_f_inode + BLOCK_SIZE - 1) div BLOCK_SIZE"
    by (simp add: ex_f_inode_def BLOCK_SIZE_def)
  show ?thesis
    using truncate_keep_result[OF ex_resolve(1) ex_readInode(2) reg keep, of now]
    by (simp add: ex_no_write_fault)
qed

lemma ex_f_extended:
  "truncate (fst (truncate ex_fs now ''/f'' 5)) now ''/f'' 12 =
     (ex_fs\<lparr>inode_table := (inode_table ex_fs)
        (1 := ex_f_inode\<lparr>isize := 12, modify_time := now, access_time := now\<rparr>)\<rparr>, OK)"
proof -
  define s1 where "s1 = ex_fs\<lparr>inode_table := (inode_table ex_fs)
        (1 := ex_f_inode\<lparr>isize := 5, modify_time := now, access_time := now\<rparr>)\<rparr>"
  have a: "alloc s1 = ex_alloc" and d: "disk s1 = ex_disk"
    and r: "inode_table s1 0 = ex_dir_inode 8 320 3"
    by (simp_all add: s1_def ex_fs_def ex_inodes_def)
  have rd: "readInode s1 1 = Inr (ex_f_inode\<lparr>isize := 5, modify_time := now, access_time := now\<rparr>)"
    using ex_readInode_any[OF a d, of 1] by (simp add: s1_def)
  have reg: "isRegularFile (ex_f_inode\<lparr>isize := 5, modify_time := now, access_time := now\<rparr>)"
    by (simp add: isRegularFile_def ex_f_inode_def)
  have wf: "\<not> write_fault (disk s1) b" for b by (simp add: d ex_disk_def)
  have keep: "isize (ex_f_inode\<lparr>isize := 5, modify_time := now, access_time := now\<rparr>) \<le> 12 \<or>
       \<not> (12 + BLOCK_SIZE - 1) div BLOCK_SIZE
          < (isize (ex_f_inode\<lparr>isize := 5, modify_time := now, access_time := now\<rparr>)
              + BLOCK_SIZE - 1) div BLOCK_SIZE"
    by (simp add: word_le_nat_alt)
  have t: "truncate s1 now ''/f'' 12 =
      (s1\<lparr>inode_table := (inode_table s1)
        (1 := ex_f_inode\<lparr>isize := 12, modify_time := now, access_time := now\<rparr>)\<rparr>, OK)"
    using truncate_keep_result[OF ex_resolve_any(1)[OF a d r] rd reg keep, of now]
    by (simp add: wf)
  show ?thesis
    unfolding ex_f_shrunk fst_conv using t[unfolded s1_def] by simp
qed

lemma ex_stale_read:
  "readFile (fst (truncate (fst (truncate ex_fs now ''/f'' 5)) now ''/f'' 12)) now' ''/f'' 5 0 =
     (ex_fs\<lparr>inode_table := (inode_table ex_fs)
        (1 := ex_f_inode\<lparr>isize := 12, modify_time := now, access_time := now'\<rparr>)\<rparr>,
      Inr (name_bytes '' World!''))"
proof -
  define f2 where "f2 = ex_f_inode\<lparr>isize := 12, modify_time := now, access_time := now\<rparr>"
  define s2 where "s2 = ex_fs\<lparr>inode_table := (inode_table ex_fs)(1 := f2)\<rparr>"
  have a: "alloc s2 = ex_alloc" and d: "disk s2 = ex_disk"
    and r: "inode_table s2 0 = ex_dir_inode 8 320 3"
    by (simp_all add: s2_def ex_fs_def ex_inodes_def)
  have rd: "readInode s2 1 = Inr f2"
    using ex_readInode_any[OF a d, of 1] by (simp add: s2_def)
  have reg: "isRegularFile f2" and sz: "isize f2 = 12"
    by (simp_all add: isRegularFile_def ex_f_inode_def f2_def)
  have gb: "getFileBlock s2 f2 0 = Inr 9"
    by (simp add: getFileBlock_def f2_def ex_f_inode_def ex_free_inode_def no_direct_def
        NUM_DIRECT_BLOCKS_def INVALID_BLOCK_def Let_def)
  have rb: "readBlockInternal s2 9 = Inr ex_hello_block"
    by (simp add: readBlockInternal_def disk_readBlock_def d ex_disk_def ex_blocks_def
        validateBlockNo_def word_less_nat_alt)
  have rl: "read_loop s2 f2 5 7 0 [] = Inr (name_bytes '' World!'')"
    by (simp add: read_loop.simps[of s2 f2 5 7 0] read_loop.simps[of s2 f2 5 7 7]
        BLOCK_SIZE_def Let_def gb rb ex_hello_block_def pad_block_def name_bytes_def)
  have w: "writeInode s2 1 (updateAccessTime now' f2) =
      (s2\<lparr>inode_table := (inode_table s2)(1 := updateAccessTime now' f2)\<rparr>, OK)"
    using writeInode_after_read[OF rd same_layout_refl refl, of "updateAccessTime now' f2"]
    by (simp add: d ex_disk_def)
  have "readFile s2 now' ''/f'' 5 0 =
      (s2\<lparr>inode_table := (inode_table s2)(1 := updateAccessTime now' f2)\<rparr>,
       Inr (name_bytes '' World!''))"
    by (simp add: readFile_def ex_resolve_any(1)[OF a d r] readFileByInode_def rd reg sz rl w
        word_le_nat_alt word_less_nat_alt)
  then show ?thesis
    unfolding ex_f_extended fst_conv
    by (simp add: s2_def f2_def updateAccessTime_def)
qed


lemma truncate_shrink_result:
  assumes res: "resolvePath s path = Inr inode_id"
    and rd: "readInode s inode_id = Inr inode"
    and reg: "isRegularFile inode"
    and len: "length (direct_blocks inode) = 12"
    and cov: "bitmap_covers (alloc s)"
    and lt: "new_size < isize inode"
    and nb: "nb = (new_size + BLOCK_SIZE - 1) div BLOCK_SIZE"
    and fewer: "nb < (isize inode + BLOCK_SIZE - 1) div BLOCK_SIZE"
  shows "truncate s now path new_size =
     (if write_fault (disk s) (getInodeBlock (alloc s) inode_id)
      then (fst (freeFileBlocks s inode nb), E_IO)
      else ((fst (freeFileBlocks s inode nb))\<lparr>inode_table := (inode_table s)
              (inode_id := updateModifyTime now
                 ((snd (freeFileBlocks s inode nb))\<lparr>isize := new_size\<rparr>))\<rparr>, OK))"
proof -
  have lay: "same_layout (alloc s) (alloc (fst (freeFileBlocks s inode nb)))"
    using freeFileBlocks_effect(1)[OF cov len, of nb 0] by (simp add: no_gain_def)
  have "truncate s now path new_size =
      writeInode (fst (freeFileBlocks s inode nb)) inode_id
        (updateModifyTime now ((snd (freeFileBlocks s inode nb))\<lparr>isize := new_size\<rparr>))"
    using lt fewer by (simp add: truncate_unfold[OF res rd reg] Let_def nb not_le[symmetric])
  then show ?thesis
    by (simp add: writeInode_after_read[OF rd lay freeFileBlocks_frame(1)]
        freeFileBlocks_frame)
qed

lemma ex_g_facts:
  "isRegularFile ex_g_inode" "length (direct_blocks ex_g_inode) = 12"
  "(5000::32 word) < isize ex_g_inode" "(12289::32 word) < isize ex_g_inode"
  "(5000 + BLOCK_SIZE - 1) div BLOCK_SIZE = (5::32 word)"
  "(12289 + BLOCK_SIZE - 1) div BLOCK_SIZE = (13::32 word)"
  "(isize ex_g_inode + BLOCK_SIZE - 1) div BLOCK_SIZE = (269::32 word)"
  by (simp_all add: isRegularFile_def ex_g_inode_def BLOCK_SIZE_def word_less_nat_alt)

lemma ex_g_blocks:
  "getFileBlock ex_fs ex_g_inode 4 = Inr 16"
  "getFileBlock ex_fs ex_g_inode 5 = Inr 17"
  "getFileBlock ex_fs ex_g_inode 13 = Inr 26"
  "getFileBlock ex_fs ex_g_inode 268 = Inr 29"
proof -
  have i: "(1::32 word) < 256" "(0::32 word) < 256" "(24::32 word) \<noteq> INVALID_BLOCK"
    "(27::32 word) \<noteq> INVALID_BLOCK" "(28::32 word) \<noteq> INVALID_BLOCK"
    by (simp_all add: INVALID_BLOCK_def word_less_nat_alt)
  show "getFileBlock ex_fs ex_g_inode 4 = Inr 16" "getFileBlock ex_fs ex_g_inode 5 = Inr 17"
    by (simp_all add: getFileBlock_def ex_g_inode_def NUM_DIRECT_BLOCKS_def INVALID_BLOCK_def
        word_less_nat_alt)
  show "getFileBlock ex_fs ex_g_inode 13 = Inr 26"
    using getIndirectBlock_ptr_at[OF i(3) i(1), of ex_fs]
    by (simp add: getFileBlock_def ex_g_inode_def NUM_DIRECT_BLOCKS_def PTRS_PER_BLOCK_def
        word_less_nat_alt ex_ptrs Let_def i)
  show "getFileBlock ex_fs ex_g_inode 268 = Inr 29"
    using getIndirectBlock_ptr_at[OF i(4) i(2), of ex_fs]
      getIndirectBlock_ptr_at[OF i(5) i(2), of ex_fs]
    by (simp add: getFileBlock_def ex_g_inode_def NUM_DIRECT_BLOCKS_def PTRS_PER_BLOCK_def
        word_less_nat_alt ex_ptrs Let_def i)
qed

lemma ex_cov: "bitmap_covers (alloc ex_fs)"
  by (simp add: ex_fs_def ex_alloc_vals)

lemma ex_g_truncated:
  "truncate ex_fs now ''/g'' 12289 =
     ((fst (freeFileBlocks ex_fs ex_g_inode 13))\<lparr>inode_table := (inode_table ex_fs)
         (3 := updateModifyTime now
                 ((snd (freeFileBlocks ex_fs ex_g_inode 13))\<lparr>isize := 12289\<rparr>))\<rparr>, OK)"
proof -
  have fewer: "(13::32 word) < (isize ex_g_inode + BLOCK_SIZE - 1) div BLOCK_SIZE"
    unfolding ex_g_facts by (simp add: word_less_nat_alt)
  show ?thesis
    unfolding truncate_shrink_result[OF ex_resolve(2) ex_readInode(4) ex_g_facts(1,2) ex_cov
        ex_g_facts(4) ex_g_facts(6)[symmetric] fewer]
    by (simp add: ex_no_write_fault)
qed


lemma ex_g_after:
  "isBlockAllocated (alloc (fst (truncate ex_fs now ''/g'' 12289))) 26"
  "getBlockRef (alloc (fst (truncate ex_fs now ''/g'' 12289))) 26 = 1"
  "getFileBlock (fst (truncate ex_fs now ''/g'' 12289))
     (inode_table (fst (truncate ex_fs now ''/g'' 12289)) 3) 13 = Inr 26"
proof -
  let ?F = "freeFileBlocks ex_fs ex_g_inode 13"
  let ?i = "updateModifyTime now ((snd ?F)\<lparr>isize := 12289\<rparr>)"
  let ?s = "(fst ?F)\<lparr>inode_table := (inode_table ex_fs)(3 := ?i)\<rparr>"
  show "isBlockAllocated (alloc (fst (truncate ex_fs now ''/g'' 12289))) 26"
    "getBlockRef (alloc (fst (truncate ex_fs now ''/g'' 12289))) 26 = 1"
    unfolding ex_g_truncated fst_conv by (simp_all add: ex_g_leak)
  have dk: "disk ?s = disk ex_fs" by (simp add: freeFileBlocks_frame)
  have si: "single_indirect ?i = 24" by (simp add: updateModifyTime_def ex_g_free13)
  have i: "(1::32 word) < 256" "(24::32 word) \<noteq> INVALID_BLOCK"
    by (simp_all add: INVALID_BLOCK_def word_less_nat_alt)
  have "getFileBlock ex_fs ?i 13 = Inr 26"
    using getIndirectBlock_ptr_at[OF i(2) i(1), of ex_fs]
    by (simp add: getFileBlock_def si NUM_DIRECT_BLOCKS_def PTRS_PER_BLOCK_def
        word_less_nat_alt ex_ptrs Let_def i)
  then show "getFileBlock (fst (truncate ex_fs now ''/g'' 12289))
     (inode_table (fst (truncate ex_fs now ''/g'' 12289)) 3) 13 = Inr 26"
    unfolding ex_g_truncated fst_conv getFileBlock_disk[OF dk] by simp
qed

lemma ex_f_facts:
  "isRegularFile ex_f_inode" "length (direct_blocks ex_f_inode) = 12"
  "isize ex_f_inode \<le> 5000" "(1024::32 word) < 5000"
  by (simp_all add: isRegularFile_def ex_f_inode_def no_direct_def word_le_nat_alt
      word_less_nat_alt)

lemma ex_f_holes:
  "\<forall>k. (1024::32 word) div BLOCK_SIZE \<le> k \<longrightarrow> (\<exists>e. getFileBlock ex_fs ex_f_inode k = Inl e)"
proof -
  have one: "(1024::32 word) div BLOCK_SIZE = 1" by (simp add: BLOCK_SIZE_def)
  have nb: "(1::32 word) \<le> NUM_DIRECT_BLOCKS"
    by (simp add: NUM_DIRECT_BLOCKS_def word_le_nat_alt)
  have d: "\<forall>j<12. direct_blocks ex_f_inode ! j =
      (if unat (1::32 word) \<le> j then INVALID_BLOCK else direct_blocks ex_f_inode ! j)"
    by (auto simp: ex_f_inode_def no_direct_def)
  have si: "single_indirect ex_f_inode = INVALID_BLOCK"
    and di: "double_indirect ex_f_inode = INVALID_BLOCK"
    by (simp_all add: ex_f_inode_def ex_free_inode_def)
  show ?thesis
    unfolding one using getFileBlock_truncated(1)[OF nb d si di, where s'=ex_fs] by blast
qed

lemma truncate_effect_example:
  "resolvePath ex_fs ''/g'' = Inr 3 \<and> readInode ex_fs 3 = Inr ex_g_inode \<and>
   isRegularFile ex_g_inode \<and> length (direct_blocks ex_g_inode) = 12 \<and>
   bitmap_covers (alloc ex_fs) \<and> (5000::32 word) < isize ex_g_inode \<and>
   (5000 + BLOCK_SIZE - 1) div BLOCK_SIZE = (5::32 word) \<and>
   (isize ex_g_inode + BLOCK_SIZE - 1) div BLOCK_SIZE = (269::32 word) \<and>
   snd (truncate ex_fs 1700000200 ''/g'' 5000) = OK \<and>
   isize (inode_table (fst (truncate ex_fs 1700000200 ''/g'' 5000)) 3) = 5000 \<and>
   getFileBlock ex_fs ex_g_inode 5 = Inr 17 \<and>
   \<not> isBlockAllocated (alloc (fst (truncate ex_fs 1700000200 ''/g'' 5000))) 17 \<and>
   getFileBlock ex_fs ex_g_inode 13 = Inr 26 \<and>
   \<not> isBlockAllocated (alloc (fst (truncate ex_fs 1700000200 ''/g'' 5000))) 26 \<and>
   getFileBlock ex_fs ex_g_inode 268 = Inr 29 \<and>
   \<not> isBlockAllocated (alloc (fst (truncate ex_fs 1700000200 ''/g'' 5000))) 29 \<and>
   (\<exists>e. getFileBlock (fst (truncate ex_fs 1700000200 ''/g'' 5000))
          (inode_table (fst (truncate ex_fs 1700000200 ''/g'' 5000)) 3) 13 = Inl e) \<and>
   getFileBlock (fst (truncate ex_fs 1700000200 ''/g'' 5000))
     (inode_table (fst (truncate ex_fs 1700000200 ''/g'' 5000)) 3) 4 = Inr 16 \<and>
   resolvePath ex_fs ''/f'' = Inr 1 \<and> readInode ex_fs 1 = Inr ex_f_inode \<and>
   isRegularFile ex_f_inode \<and> isize ex_f_inode \<le> 5000 \<and>
   snd (truncate ex_fs 1700000200 ''/f'' 5000) = OK \<and>
   alloc (fst (truncate ex_fs 1700000200 ''/f'' 5000)) = alloc ex_fs \<and>
   disk (fst (truncate ex_fs 1700000200 ''/f'' 5000)) = disk ex_fs \<and>
   isize (inode_table (fst (truncate ex_fs 1700000200 ''/f'' 5000)) 1) = 5000 \<and>
   snd (readFileByInode (fst (truncate ex_fs 1700000200 ''/f'' 5000)) 1700000300 1 1024 0) =
     Inr (replicate 3976 0)"
proof -
  note G = truncate_effect[OF ex_resolve(2) ex_readInode(4) ex_g_facts(1,2) ex_cov,
      of 1700000200 5000 1700000300, unfolded Let_def ex_g_facts]
  note F = truncate_effect[OF ex_resolve(1) ex_readInode(2) ex_f_facts(1,2) ex_cov,
      of 1700000200 5000 1700000300, unfolded Let_def]
  have le: "(5::32 word) < 269" "(5::32 word) \<le> NUM_DIRECT_BLOCKS" "(5::32 word) \<le> 13"
    "(5::32 word) \<le> 268" "(4::32 word) < 5" "(5::32 word) \<le> 5"
    by (simp_all add: NUM_DIRECT_BLOCKS_def word_le_nat_alt word_less_nat_alt)
  from G have gok: "snd (truncate ex_fs 1700000200 ''/g'' 5000) = OK"
    by (simp add: ex_no_write_fault)
  from G gok have gsz: "isize (inode_table (fst (truncate ex_fs 1700000200 ''/g'' 5000)) 3) = 5000"
    by simp
  from G le have rel: "\<And>k b. 5 \<le> k \<Longrightarrow> getFileBlock ex_fs ex_g_inode k = Inr b \<Longrightarrow>
      isBlockAllocated (alloc (fst (truncate ex_fs 1700000200 ''/g'' 5000))) b \<Longrightarrow>
      1 < getBlockRef (alloc ex_fs) b"
    using ex_g_facts(3) by blast
  have r1: "getBlockRef (alloc ex_fs) 17 = 1" "getBlockRef (alloc ex_fs) 26 = 1"
    "getBlockRef (alloc ex_fs) 29 = 1"
    by (simp_all add: ex_fs_def ex_alloc_26)
  have g17: "\<not> isBlockAllocated (alloc (fst (truncate ex_fs 1700000200 ''/g'' 5000))) 17"
    using rel[OF le(6) ex_g_blocks(2)] r1 by auto
  have g26: "\<not> isBlockAllocated (alloc (fst (truncate ex_fs 1700000200 ''/g'' 5000))) 26"
    using rel[OF le(3) ex_g_blocks(3)] r1 by auto
  have g29: "\<not> isBlockAllocated (alloc (fst (truncate ex_fs 1700000200 ''/g'' 5000))) 29"
    using rel[OF le(4) ex_g_blocks(4)] r1 by auto
  from G gok le ex_g_facts(3) have gone:
    "\<exists>e. getFileBlock (fst (truncate ex_fs 1700000200 ''/g'' 5000))
          (inode_table (fst (truncate ex_fs 1700000200 ''/g'' 5000)) 3) 13 = Inl e"
    by blast
  from G gok le ex_g_facts(3) have kept:
    "getFileBlock (fst (truncate ex_fs 1700000200 ''/g'' 5000))
       (inode_table (fst (truncate ex_fs 1700000200 ''/g'' 5000)) 3) 4 =
     getFileBlock ex_fs ex_g_inode 4"
    by blast
  from F have fok: "snd (truncate ex_fs 1700000200 ''/f'' 5000) = OK"
    by (simp add: ex_no_write_fault)
  from F ex_f_facts(3) have fal: "alloc (fst (truncate ex_fs 1700000200 ''/f'' 5000)) = alloc ex_fs"
    and fdk: "disk (fst (truncate ex_fs 1700000200 ''/f'' 5000)) = disk ex_fs"
    by blast+
  from F fok have fsz: "isize (inode_table (fst (truncate ex_fs 1700000200 ''/f'' 5000)) 1) = 5000"
    by simp
  from F fok ex_f_facts(3,4) ex_f_holes have frd:
    "snd (readFileByInode (fst (truncate ex_fs 1700000200 ''/f'' 5000)) 1700000300 1 1024 0) =
       Inr (replicate (unat (5000 - 1024 :: 32 word)) 0)"
    by blast
  show ?thesis
    using ex_resolve ex_readInode ex_g_facts ex_f_facts ex_cov gok gsz g17 g26 g29 gone kept
      fok fal fdk fsz frd ex_g_blocks
    by simp
qed


text \<open>Claim C2: shrinking frees every file block whose index is at least
  \<open>ceil (new_size / 1024)\<close>, and the region added by extending reads as zero bytes. The code
  departs from both on the example image. File \<open>/g\<close> has 269 blocks: twelve direct ones, file
  blocks 12 and 13 in the single-indirect block 24 (disk blocks 25 and 26), and file block
  268 under the double-indirect block 27. Truncating it to 12289 bytes gives a new block count
  of 13 and succeeds; \<open>freeFileBlocks\<close> frees the double-indirect tree (disk blocks 29, 28
  and 27) and nothing else, since it walks the single-indirect block only from a block count
  of at most 12. File block 13 is still disk block 26, whose bitmap bit (data index 18) is
  still set and whose reference count is still 1. File \<open>/f\<close> holds \<open>Hello World!\<close> in one
  block: shrunk to 5 bytes and extended to 12, a read from offset 5 returns the seven old
  bytes and not zeros, since \<open>truncate\<close> clears no byte of a block it keeps.\<close>

theorem truncate_leaves_indirect_blocks:
  "(12289::32 word) < isize ex_g_inode \<and>
   (12289 + BLOCK_SIZE - 1) div BLOCK_SIZE = (13::32 word) \<and>
   resolvePath ex_fs ''/g'' = Inr 3 \<and> readInode ex_fs 3 = Inr ex_g_inode \<and>
   getFileBlock ex_fs ex_g_inode 13 = Inr 26 \<and>
   snd (truncate ex_fs 1700000200 ''/g'' 12289) = OK \<and>
   isize (inode_table (fst (truncate ex_fs 1700000200 ''/g'' 12289)) 3) = 12289 \<and>
   alloc (fst (truncate ex_fs 1700000200 ''/g'' 12289)) =
     fst (freeBlock (fst (freeBlock (fst (freeBlock (alloc ex_fs) 29)) 28)) 27) \<and>
   absoluteToDataBlock (alloc (fst (truncate ex_fs 1700000200 ''/g'' 12289))) 26 = 18 \<and>
   bitmap_get (block_bitmap (alloc (fst (truncate ex_fs 1700000200 ''/g'' 12289))))
     (data_block_count (superblock (alloc (fst (truncate ex_fs 1700000200 ''/g'' 12289))))) 18 \<and>
   block_refcount (alloc (fst (truncate ex_fs 1700000200 ''/g'' 12289))) ! 18 = 1 \<and>
   getFileBlock (fst (truncate ex_fs 1700000200 ''/g'' 12289))
     (inode_table (fst (truncate ex_fs 1700000200 ''/g'' 12289)) 3) 13 = Inr 26 \<and>
   snd (truncate ex_fs 1700000200 ''/f'' 5) = OK \<and>
   snd (truncate (fst (truncate ex_fs 1700000200 ''/f'' 5)) 1700000200 ''/f'' 12) = OK \<and>
   snd (readFile (fst (truncate (fst (truncate ex_fs 1700000200 ''/f'' 5)) 1700000200 ''/f'' 12))
          1700000300 ''/f'' 5 0) = Inr (name_bytes '' World!'') \<and>
   name_bytes '' World!'' \<noteq> replicate 7 0"
proof -
  let ?s = "fst (truncate ex_fs 1700000200 ''/g'' 12289)"
  have c4: "snd (truncate ex_fs 1700000200 ''/g'' 12289) = OK"
    unfolding ex_g_truncated by simp
  have c5: "isize (inode_table ?s 3) = 12289"
    unfolding ex_g_truncated by (simp add: updateModifyTime_def)
  have c6: "alloc ?s = fst (freeBlock (fst (freeBlock (fst (freeBlock (alloc ex_fs) 29)) 28)) 27)"
    unfolding ex_g_truncated by (simp add: ex_g_free13 ex_fs_def[THEN arg_cong, of alloc])
  have lay: "same_layout (alloc ex_fs) (alloc ?s)"
    unfolding c6
    by (intro same_layout_trans[OF same_layout_trans[OF freeBlock_layout freeBlock_layout]
          freeBlock_layout])
  have idx: "absoluteToDataBlock (alloc ?s) 26 = 18"
    using lay by (simp add: absoluteToDataBlock_def same_layout_def ex_fs_def ex_alloc_def ex_sb_def)
  have c7: "bitmap_get (block_bitmap (alloc ?s)) (data_block_count (superblock (alloc ?s))) 18"
    using ex_g_after(1)[of 1700000200] unfolding idx[symmetric]
    by (simp add: isBlockAllocated_def split: if_splits)
  have c7b: "block_refcount (alloc ?s) ! 18 = 1"
    using ex_g_after(2)[of 1700000200] idx
    by (simp add: getBlockRef_def Let_def ucast_u8_eq1 split: if_splits)
  have c8: "snd (truncate ex_fs 1700000200 ''/f'' 5) = OK"
    unfolding ex_f_shrunk by simp
  have c9: "snd (truncate (fst (truncate ex_fs 1700000200 ''/f'' 5)) 1700000200 ''/f'' 12) = OK"
    unfolding ex_f_extended by simp
  have c10: "snd (readFile
        (fst (truncate (fst (truncate ex_fs 1700000200 ''/f'' 5)) 1700000200 ''/f'' 12))
        1700000300 ''/f'' 5 0) = Inr (name_bytes '' World!'')"
    unfolding ex_stale_read by simp
  have rep: "replicate 7 x = [x, x, x, x, x, x, x]" for x :: "8 word"
    by (simp add: numeral_eq_Suc)
  have c11: "name_bytes '' World!'' \<noteq> replicate 7 0"
    by (simp add: name_bytes_def rep)
  show ?thesis
    by (intro conjI ex_g_facts(4) ex_g_facts(6) ex_resolve(2) ex_readInode(4) ex_g_blocks(3)
        c4 c5 c6 idx c7 c7b ex_g_after(3) c8 c9 c10 c11)
qed


end
